theory Spec2Isabelle
  imports Main "HOL-Library.Char_ord" "HOL-Library.List_Lexorder" "HOL-Library.AList"
begin

section \<open>Strings and paths: the library functions the program calls\<close>

text \<open>
  Go strings are byte sequences; they are modelled as \<open>string\<close> (a list of 8-bit
  characters). The functions of packages \<open>strings\<close> and \<open>path/filepath\<close> that
  \<open>main.go\<close> calls are written out for the Unix path syntax (separator \<open>/\<close>, no
  volume names). \<open>strings.ToLower\<close> is modelled on ASCII letters; bytes outside
  \<open>A\<close>..\<open>Z\<close> are left as they are.
\<close>

definition strings_HasPrefix :: "string \<Rightarrow> string \<Rightarrow> bool" where
  "strings_HasPrefix s pre = (take (length pre) s = pre)"

definition strings_HasSuffix :: "string \<Rightarrow> string \<Rightarrow> bool" where
  "strings_HasSuffix s suf =
     (length suf \<le> length s \<and> drop (length s - length suf) s = suf)"

definition strings_TrimSuffix :: "string \<Rightarrow> string \<Rightarrow> string" where
  "strings_TrimSuffix s suf =
     (if strings_HasSuffix s suf then take (length s - length suf) s else s)"

definition lower_char :: "char \<Rightarrow> char" where
  "lower_char c =
     (case map_of (zip ''ABCDEFGHIJKLMNOPQRSTUVWXYZ'' ''abcdefghijklmnopqrstuvwxyz'') c of
        Some l \<Rightarrow> l
      | None \<Rightarrow> c)"

definition strings_ToLower :: "string \<Rightarrow> string" where
  "strings_ToLower s = map lower_char s"

text \<open>\<open>strings.Index\<close>: the byte index of the first occurrence, \<open>-1\<close> if there is none.\<close>

fun strings_Index :: "string \<Rightarrow> string \<Rightarrow> int" where
  "strings_Index [] sub = (if sub = [] then 0 else - 1)"
| "strings_Index (c # cs) sub =
     (if strings_HasPrefix (c # cs) sub then 0
      else (let i = strings_Index cs sub in if i = - 1 then - 1 else i + 1))"

text \<open>\<open>strings.Join\<close> of path elements with the separator.\<close>

fun join_sep :: "string list \<Rightarrow> string" where
  "join_sep [] = []"
| "join_sep [e] = e"
| "join_sep (e # es) = e @ ''/'' @ join_sep es"

text \<open>Splitting at every occurrence of a character, empty pieces kept.\<close>

fun split_on :: "char \<Rightarrow> string \<Rightarrow> string list" where
  "split_on x [] = [[]]"
| "split_on x (c # cs) =
     (if c = x then [] # split_on x cs
      else (case split_on x cs of
              [] \<Rightarrow> [[c]]
            | w # ws \<Rightarrow> (c # w) # ws))"

definition split_sep :: "string \<Rightarrow> string list" where
  "split_sep p = split_on (CHR ''/'') p"

text \<open>
  \<open>filepath.Clean\<close>: multiple separators collapse, \<open>.\<close> elements go, an inner \<open>..\<close>
  removes the element before it, \<open>..\<close> at the start of a rooted path goes, and the
  empty result is \<open>.\<close>. The stack holds the kept elements, last one first.
\<close>

fun clean_step :: "bool \<Rightarrow> string \<Rightarrow> string list \<Rightarrow> string list" where
  "clean_step rooted e stack =
     (if e = [] \<or> e = ''.'' then stack
      else if e = ''..'' then
        (case stack of
           [] \<Rightarrow> (if rooted then [] else [''..''])
         | t # ts \<Rightarrow> (if t = ''..'' then ''..'' # t # ts else ts))
      else e # stack)"

definition filepath_Clean :: "string \<Rightarrow> string" where
  "filepath_Clean p =
     (let rooted = strings_HasPrefix p ''/'';
          kept = rev (fold (clean_step rooted) (split_sep p) []);
          out = (if rooted then ''/'' else []) @ join_sep kept
      in if out = [] then ''.'' else out)"

text \<open>
  \<open>filepath.Join\<close>: the elements from the first non-empty one on, joined and cleaned;
  the empty string when every element is empty.
\<close>

definition filepath_Join :: "string list \<Rightarrow> string" where
  "filepath_Join elems =
     (case dropWhile (\<lambda>e. e = []) elems of
        [] \<Rightarrow> []
      | es \<Rightarrow> filepath_Clean (join_sep es))"

text \<open>\<open>filepath.Ext\<close>: the suffix from the last dot of the last element, scanned from the end.\<close>

fun ext_scan :: "string \<Rightarrow> string \<Rightarrow> string" where
  "ext_scan [] acc = []"
| "ext_scan (c # r) acc =
     (if c = CHR ''/'' then []
      else if c = CHR ''.'' then c # acc
      else ext_scan r (c # acc))"

definition filepath_Ext :: "string \<Rightarrow> string" where
  "filepath_Ext p = ext_scan (rev p) []"

text \<open>\<open>filepath.Base\<close>: the last element, trailing separators stripped first.\<close>

definition filepath_Base :: "string \<Rightarrow> string" where
  "filepath_Base p =
     (if p = [] then ''.''
      else (let stripped = dropWhile (\<lambda>c. c = CHR ''/'') (rev p);
                b = rev (takeWhile (\<lambda>c. c \<noteq> CHR ''/'') stripped)
            in if b = [] then ''/'' else b))"

text \<open>\<open>filepath.Dir\<close>: everything up to the last separator, cleaned.\<close>

definition filepath_Dir :: "string \<Rightarrow> string" where
  "filepath_Dir p = filepath_Clean (rev (dropWhile (\<lambda>c. c \<noteq> CHR ''/'') (rev p)))"

text \<open>
  \<open>filepath.Rel\<close>: both paths are cleaned; equal paths give \<open>.\<close>; a rooted and an
  unrooted path cannot be related; otherwise the common leading elements are dropped,
  one \<open>..\<close> stands for every element left of the base, and the rest of the target
  follows. The result is \<open>None\<close> where Go returns an error.
\<close>

fun strip_common :: "string list \<Rightarrow> string list \<Rightarrow> string list \<times> string list" where
  "strip_common (b # bs) (t # ts) =
     (if b = t then strip_common bs ts else (b # bs, t # ts))"
| "strip_common bs ts = (bs, ts)"

definition path_elems :: "string \<Rightarrow> string list" where
  "path_elems p =
     (let q = (if strings_HasPrefix p ''/'' then drop 1 p else p)
      in if q = [] then [] else split_sep q)"

definition filepath_Rel :: "string \<Rightarrow> string \<Rightarrow> string option" where
  "filepath_Rel basepath targpath =
     (let base0 = filepath_Clean basepath;
          targ = filepath_Clean targpath
      in if targ = base0 then Some ''.''
         else
           (let base = (if base0 = ''.'' then [] else base0)
            in if strings_HasPrefix base ''/'' \<noteq> strings_HasPrefix targ ''/'' then None
               else
                 (case strip_common (path_elems base) (path_elems targ) of
                    (bs, ts) \<Rightarrow>
                      if bs \<noteq> [] \<and> ts \<noteq> [] \<and> hd bs = ''..'' then None
                      else Some (join_sep (replicate (length bs) ''..'' @ ts)))))"

section \<open>Classifying files and mapping output paths\<close>

text \<open>\<open>isMarkdownFile\<close> (main.go, lines 166-169).\<close>

definition isMarkdownFile :: "string \<Rightarrow> bool" where
  "isMarkdownFile path =
     (let ext = strings_ToLower (filepath_Ext path)
      in ext = ''.md'' \<or> ext = ''.markdown'' \<or> ext = ''.mkd'' \<or> ext = ''.mdown'')"

text \<open>
  The path computed by \<open>writeHTMLFile\<close> (main.go, lines 302-311) from the mirrored
  output path and the input path.
\<close>

definition outputHTMLPath :: "string \<Rightarrow> string \<Rightarrow> string" where
  "outputHTMLPath outputPath inputPath =
     (if filepath_Base inputPath = ''index.md''
      then strings_TrimSuffix outputPath (filepath_Ext outputPath) @ ''.html''
      else (let baseName = strings_TrimSuffix (filepath_Base inputPath) (filepath_Ext inputPath)
            in filepath_Join [filepath_Dir outputPath, baseName, ''index.html'']))"

section \<open>The file system\<close>

text \<open>
  A file carries its bytes and its modification time, a directory its entries by name.
  The input directory, the templates directory and the output directory are three
  separate trees: the configuration is taken to name three directories none of which
  lies inside another, so that a path built from one root is looked up in that root's
  tree, and what the build writes under the output root changes neither of the trees it
  reads. A tree that is \<open>None\<close> does not exist. No other I/O failure (permissions,
  full disk) is modelled. Of the console output, only the lines that report an error
  are kept; colour codes are left out.
\<close>

datatype fsnode = File string int | Dir "(string \<times> fsnode) list"

datatype os_error = ENOENT | ENOTDIR | EISDIR

fun err_text :: "os_error \<Rightarrow> string" where
  "err_text ENOENT = ''no such file or directory''"
| "err_text ENOTDIR = ''not a directory''"
| "err_text EISDIR = ''is a directory''"

fun IsDir :: "fsnode \<Rightarrow> bool" where
  "IsDir (Dir _) = True"
| "IsDir (File _ _) = False"

fun ModTime :: "fsnode \<Rightarrow> int" where
  "ModTime (File _ t) = t"
| "ModTime (Dir _) = 0"

fun node_at :: "fsnode \<Rightarrow> string list \<Rightarrow> fsnode option" where
  "node_at n [] = Some n"
| "node_at (File _ _) (c # cs) = None"
| "node_at (Dir chs) (c # cs) =
     (case map_of chs c of None \<Rightarrow> None | Some ch \<Rightarrow> node_at ch cs)"

text \<open>
  \<open>os.MkdirAll\<close> below a directory: existing directories are entered, missing ones
  are created, a file on the way is an error and nothing is created.
\<close>

fun mkdirAll :: "string list \<Rightarrow> fsnode \<Rightarrow> os_error + fsnode" where
  "mkdirAll [] (Dir chs) = Inr (Dir chs)"
| "mkdirAll [] (File d t) = Inl ENOTDIR"
| "mkdirAll (c # cs) (File d t) = Inl ENOTDIR"
| "mkdirAll (c # cs) (Dir chs) =
     (case mkdirAll cs (case map_of chs c of None \<Rightarrow> Dir [] | Some ch \<Rightarrow> ch) of
        Inl e \<Rightarrow> Inl e
      | Inr ch' \<Rightarrow> Inr (Dir (AList.update c ch' chs)))"

text \<open>
  \<open>os.WriteFile\<close> (and \<open>os.Create\<close> followed by a copy): the parent must be an
  existing directory and the target must not be a directory; an existing file is
  replaced. The modification time of a written file is not tracked (the output tree is
  never watched) and is set to \<open>0\<close>.
\<close>

fun writeFile :: "string list \<Rightarrow> string \<Rightarrow> fsnode \<Rightarrow> os_error + fsnode" where
  "writeFile [] d (File d0 t) = Inr (File d 0)"
| "writeFile [] d (Dir chs) = Inl EISDIR"
| "writeFile (c # cs) d (File d0 t) = Inl ENOTDIR"
| "writeFile (c # cs) d (Dir chs) =
     (case map_of chs c of
        None \<Rightarrow> (if cs = [] then Inr (Dir (AList.update c (File d 0) chs)) else Inl ENOENT)
      | Some ch \<Rightarrow>
          (case writeFile cs d ch of
             Inl e \<Rightarrow> Inl e
           | Inr ch' \<Rightarrow> Inr (Dir (AList.update c ch' chs))))"

record Configuration =
  InputDir :: string
  OutputDir :: string
  TemplatesDir :: string
  Serve :: bool
  Host :: string
  Port :: int

record fs_state =
  in_tree :: "fsnode option"
  tmpl_tree :: "fsnode option"
  out_tree :: "fsnode option"
  console :: "string list"

text \<open>
  Where a path lies below a root: the elements of the path relative to the root, or
  \<open>None\<close> when it is not below it.
\<close>

definition under :: "string \<Rightarrow> string \<Rightarrow> string list option" where
  "under root p =
     (case filepath_Rel root p of
        None \<Rightarrow> None
      | Some r \<Rightarrow>
          if r = ''.'' then Some []
          else (let es = split_sep r in if hd es = ''..'' then None else Some es))"

definition in_node :: "Configuration \<Rightarrow> fs_state \<Rightarrow> string \<Rightarrow> fsnode option" where
  "in_node cfg st p =
     (case (in_tree st, under (InputDir cfg) p) of
        (Some t, Some cs) \<Rightarrow> node_at t cs
      | _ \<Rightarrow> None)"

definition tmpl_node :: "Configuration \<Rightarrow> fs_state \<Rightarrow> string \<Rightarrow> fsnode option" where
  "tmpl_node cfg st p =
     (case (tmpl_tree st, under (TemplatesDir cfg) p) of
        (Some t, Some cs) \<Rightarrow> node_at t cs
      | _ \<Rightarrow> None)"


definition print_line :: "string \<Rightarrow> fs_state \<Rightarrow> fs_state" where
  "print_line l st = st\<lparr>console := console st @ [l]\<rparr>"

text \<open>
  \<open>os.MkdirAll\<close> on an output path. Its error is ignored at every call in
  \<open>main.go\<close>, so only the new state is returned. A path that is not below the output
  root lies outside the three trees, and the call leaves them as they are.
\<close>

definition os_MkdirAll :: "Configuration \<Rightarrow> string \<Rightarrow> fs_state \<Rightarrow> fs_state" where
  "os_MkdirAll cfg p st =
     (case under (OutputDir cfg) p of
        None \<Rightarrow> st
      | Some cs \<Rightarrow>
          (case mkdirAll cs (case out_tree st of None \<Rightarrow> Dir [] | Some t \<Rightarrow> t) of
             Inl e \<Rightarrow> st
           | Inr t' \<Rightarrow> st\<lparr>out_tree := Some t'\<rparr>))"

definition os_WriteFile ::
  "Configuration \<Rightarrow> string \<Rightarrow> string \<Rightarrow> fs_state \<Rightarrow> os_error option \<times> fs_state" where
  "os_WriteFile cfg p d st =
     (case under (OutputDir cfg) p of
        None \<Rightarrow> (None, st)
      | Some cs \<Rightarrow>
          (case out_tree st of
             None \<Rightarrow> (Some ENOENT, st)
           | Some t \<Rightarrow>
               (case writeFile cs d t of
                  Inl e \<Rightarrow> (Some e, st)
                | Inr t' \<Rightarrow> (None, st\<lparr>out_tree := Some t'\<rparr>))))"

text \<open>
  \<open>copyFile\<close> (main.go, lines 172-187): open the source, create the destination,
  copy. Reading a directory fails after the destination has been created.
\<close>

definition copyFile ::
  "Configuration \<Rightarrow> string \<Rightarrow> string \<Rightarrow> fs_state \<Rightarrow> os_error option \<times> fs_state" where
  "copyFile cfg src dst st =
     (case in_node cfg st src of
        None \<Rightarrow> (Some ENOENT, st)
      | Some (File d t) \<Rightarrow> os_WriteFile cfg dst d st
      | Some (Dir chs) \<Rightarrow>
          (case os_WriteFile cfg dst [] st of
             (Some e, st') \<Rightarrow> (Some e, st')
           | (None, st') \<Rightarrow> (Some EISDIR, st')))"

section \<open>Walking a tree\<close>

text \<open>
  \<open>filepath.Walk\<close> calls the function on the root and then, for a directory, on every
  entry in lexical order of the names, depth first. The function receives the path and
  either the entry or the error of looking it up, and answers \<open>nil\<close>
  (\<open>Continue\<close>), \<open>filepath.SkipDir\<close> or another error, which stops the walk. A
  run-time panic inside the function unwinds the walk in the same way. The state the Go
  closure captures is passed through explicitly. The walked tree is the one found when
  the walk starts.
\<close>

datatype walk_ret = Continue | SkipDir | Stop os_error | Panic

type_synonym 's WalkFunc = "string \<Rightarrow> os_error + fsnode \<Rightarrow> 's \<Rightarrow> walk_ret \<times> 's"

function walk :: "string \<Rightarrow> fsnode \<Rightarrow> 's WalkFunc \<Rightarrow> 's \<Rightarrow> walk_ret \<times> 's"
  and walk_names :: "string \<Rightarrow> (string \<times> fsnode) list \<Rightarrow> 's WalkFunc \<Rightarrow> 's \<Rightarrow> walk_ret \<times> 's"
where
  "walk path (File d t) fn s = fn path (Inr (File d t)) s"
| "walk path (Dir chs) fn s =
     (case fn path (Inr (Dir chs)) s of
        (Continue, s') \<Rightarrow> walk_names path (sort_key fst chs) fn s'
      | (r, s') \<Rightarrow> (r, s'))"
| "walk_names path [] fn s = (Continue, s)"
| "walk_names path ((name, ch) # rest) fn s =
     (case walk (filepath_Join [path, name]) ch fn s of
        (Continue, s') \<Rightarrow> walk_names path rest fn s'
      | (SkipDir, s') \<Rightarrow> (if IsDir ch then walk_names path rest fn s' else (SkipDir, s'))
      | (r, s') \<Rightarrow> (r, s'))"
  by pat_completeness auto

termination
proof -
  have ins: "size_list f (insort_key k x xs) = Suc (f x + size_list f xs)"
    for f :: "string \<times> fsnode \<Rightarrow> nat" and k :: "string \<times> fsnode \<Rightarrow> string" and x xs
    by (induction xs) auto
  have srt: "size_list f (sort_key k xs) = size_list f xs"
    for f :: "string \<times> fsnode \<Rightarrow> nat" and k :: "string \<times> fsnode \<Rightarrow> string" and xs
    by (induction xs) (auto simp: ins)
  show ?thesis
    by (relation "measure (\<lambda>x. case x of
            Inl (p, n, f, s) \<Rightarrow> size n
          | Inr (p, chs, f, s) \<Rightarrow> size_list (size_prod (\<lambda>_. 0) size) chs)")
       (auto simp: srt)
qed

text \<open>
  The calls a walk makes, in order, when the function answers \<open>SkipDir\<close> exactly at
  the directories \<open>prune\<close> holds for and \<open>nil\<close> everywhere else.
\<close>

function walk_list :: "(string \<Rightarrow> bool) \<Rightarrow> string \<Rightarrow> fsnode \<Rightarrow> (string \<times> fsnode) list"
  and walk_list_names ::
    "(string \<Rightarrow> bool) \<Rightarrow> string \<Rightarrow> (string \<times> fsnode) list \<Rightarrow> (string \<times> fsnode) list"
where
  "walk_list prune path (File d t) = [(path, File d t)]"
| "walk_list prune path (Dir chs) =
     (path, Dir chs) # (if prune path then [] else walk_list_names prune path (sort_key fst chs))"
| "walk_list_names prune path [] = []"
| "walk_list_names prune path ((name, ch) # rest) =
     walk_list prune (filepath_Join [path, name]) ch @ walk_list_names prune path rest"
  by pat_completeness auto

termination
proof -
  have ins: "size_list f (insort_key k x xs) = Suc (f x + size_list f xs)"
    for f :: "string \<times> fsnode \<Rightarrow> nat" and k :: "string \<times> fsnode \<Rightarrow> string" and x xs
    by (induction xs) auto
  have srt: "size_list f (sort_key k xs) = size_list f xs"
    for f :: "string \<times> fsnode \<Rightarrow> nat" and k :: "string \<times> fsnode \<Rightarrow> string" and xs
    by (induction xs) (auto simp: ins)
  show ?thesis
    by (relation "measure (\<lambda>x. case x of
            Inl (pr, p, n) \<Rightarrow> size n
          | Inr (pr, p, chs) \<Rightarrow> size_list (size_prod (\<lambda>_. 0) size) chs)")
       (auto simp: srt)
qed

definition filepath_Walk ::
  "string \<Rightarrow> fsnode option \<Rightarrow> 's WalkFunc \<Rightarrow> 's \<Rightarrow> walk_ret \<times> 's" where
  "filepath_Walk root tree fn s =
     (case (case tree of None \<Rightarrow> fn root (Inl ENOENT) s | Some n \<Rightarrow> walk root n fn s) of
        (SkipDir, s') \<Rightarrow> (Continue, s')
      | (r, s') \<Rightarrow> (r, s'))"

section \<open>Front matter and rendering\<close>

text \<open>
  The values a YAML document can hold, for the keys of the front matter that are not
  bound to a named field (\<open>Custom\<close>, a Go map: its keys are distinct).
\<close>

datatype yaml = YNull | YBool bool | YInt int | YString string | YSeq "yaml list"
  | YMap "(string \<times> yaml) list"

record FrontMatter =
  Title :: string
  Template :: string
  Description :: string
  Date :: string
  Tags :: "string list"
  Custom :: "(string \<times> yaml) list"

definition empty_FrontMatter :: FrontMatter where
  "empty_FrontMatter =
     \<lparr>Title = [], Template = [], Description = [], Date = [], Tags = [], Custom = []\<rparr>"

text \<open>What a template is executed against: strings, trusted HTML, and custom values.\<close>

datatype tvalue = GoString string | HTML string | Other yaml

text \<open>
  The external collaborators are parameters of the model: the YAML decoder (it returns
  its error, if any, and the structure as it left it), the markdown converter, and the
  template engine (parsing a template source, and executing a parsed template, which is
  identified with its source).
\<close>

record collab =
  yaml_Unmarshal :: "string \<Rightarrow> FrontMatter \<Rightarrow> string option \<times> FrontMatter"
  md_Convert :: "string \<Rightarrow> string + string"
  template_Parse :: "string \<Rightarrow> string option"
  template_Execute :: "string \<Rightarrow> (string \<rightharpoonup> tvalue) \<Rightarrow> string + string"

text \<open>
  \<open>parseFrontMatter\<close> (main.go, lines 190-215). The third component is what it prints.
\<close>

definition parseFrontMatter :: "collab \<Rightarrow> string \<Rightarrow> FrontMatter \<times> string \<times> string list" where
  "parseFrontMatter c content =
     (if \<not> strings_HasPrefix content ''---\<newline>'' then (empty_FrontMatter, content, [])
      else
        (let endIndex = strings_Index (drop 4 content) ''---\<newline>''
         in if endIndex = - 1 then (empty_FrontMatter, content, [])
            else
              (let frontMatterContent = take (nat endIndex) (drop 4 content);
                   markdownContent = drop (nat (endIndex + 8)) content
               in (case yaml_Unmarshal c frontMatterContent empty_FrontMatter of
                     (Some e, frontMatter) \<Rightarrow>
                       (frontMatter, markdownContent,
                        [''Error: Error parsing front matter: '' @ e])
                   | (None, frontMatter) \<Rightarrow> (frontMatter, markdownContent, [])))))"

text \<open>
  \<open>writeHTMLFile\<close> (main.go, lines 301-323): the output path of the page, its
  directory, the write.
\<close>

definition writeHTMLFile ::
  "Configuration \<Rightarrow> string \<Rightarrow> string \<Rightarrow> string \<Rightarrow> fs_state \<Rightarrow> fs_state" where
  "writeHTMLFile cfg outputPath inputPath content st =
     (let p = outputHTMLPath outputPath inputPath;
          st1 = os_MkdirAll cfg (filepath_Dir p) st
      in (case os_WriteFile cfg p content st1 of
            (Some e, st2) \<Rightarrow> print_line (''Error: Error writing HTML file: '' @ err_text e) st2
          | (None, st2) \<Rightarrow> st2))"

definition os_ReadFile :: "fsnode option \<Rightarrow> os_error + string" where
  "os_ReadFile n =
     (case n of
        None \<Rightarrow> Inl ENOENT
      | Some (Dir chs) \<Rightarrow> Inl EISDIR
      | Some (File d t) \<Rightarrow> Inr d)"

text \<open>\<open>template.ParseFiles\<close>: read the file, parse it.\<close>

definition template_ParseFiles ::
  "collab \<Rightarrow> Configuration \<Rightarrow> fs_state \<Rightarrow> string \<Rightarrow> string + string" where
  "template_ParseFiles c cfg st tmplPath =
     (case os_ReadFile (tmpl_node cfg st tmplPath) of
        Inl e \<Rightarrow> Inl (err_text e)
      | Inr src \<Rightarrow>
          (case template_Parse c src of
             Some e \<Rightarrow> Inl e
           | None \<Rightarrow> Inr src))"

definition templateData :: "FrontMatter \<Rightarrow> string \<Rightarrow> (string \<rightharpoonup> tvalue)" where
  "templateData frontMatter htmlContent =
     fold (\<lambda>(k, v) m. m(k \<mapsto> Other v)) (Custom frontMatter)
       [''Title'' \<mapsto> GoString (Title frontMatter),
        ''Description'' \<mapsto> GoString (Description frontMatter),
        ''Date'' \<mapsto> GoString (Date frontMatter),
        ''Content'' \<mapsto> HTML htmlContent]"

definition fallback_page :: "string \<Rightarrow> string" where
  "fallback_page htmlContent = ''<html><body>'' @ htmlContent @ ''</body></html>''"

text \<open>
  \<open>renderMarkdown\<close> (main.go, lines 218-298). The walk of the templates directory at
  lines 248-256 only collects names for a console line, but its function reads
  \<open>info\<close> without looking at \<open>err\<close>: when the templates root is missing, \<open>info\<close>
  is nil and the call panics. That is the result \<open>None\<close>.
\<close>

definition renderMarkdown ::
  "collab \<Rightarrow> Configuration \<Rightarrow> string \<Rightarrow> string \<Rightarrow> string \<Rightarrow> fs_state \<Rightarrow> fs_state option" where
  "renderMarkdown c cfg inputPath outputPath templatesDir st =
     (case os_ReadFile (in_node cfg st inputPath) of
        Inl e \<Rightarrow> Some (print_line (''Error: Error reading markdown file: '' @ err_text e) st)
      | Inr content \<Rightarrow>
          (case parseFrontMatter c content of
             (frontMatter, markdownContent, msgs) \<Rightarrow>
               (let st1 = st\<lparr>console := console st @ msgs\<rparr>
                in (case md_Convert c markdownContent of
                      Inl e \<Rightarrow> Some (print_line (''Error: Error converting markdown: '' @ e) st1)
                    | Inr htmlContent \<Rightarrow>
                        (case tmpl_node cfg st1 templatesDir of
                           None \<Rightarrow> None
                         | Some troot \<Rightarrow>
                             (let data = templateData frontMatter htmlContent;
                                  templateFile =
                                    (if Template frontMatter = [] then ''default.html''
                                     else Template frontMatter);
                                  tmplPath = filepath_Join [templatesDir, templateFile]
                              in (case template_ParseFiles c cfg st1 tmplPath of
                                    Inl e \<Rightarrow>
                                      Some (writeHTMLFile cfg outputPath inputPath
                                              (fallback_page htmlContent)
                                              (print_line
                                                 (''Error: Error loading template '' @ templateFile
                                                    @ '': '' @ e) st1))
                                  | Inr tmpl \<Rightarrow>
                                      (case template_Execute c tmpl data of
                                         Inl e \<Rightarrow>
                                           Some (writeHTMLFile cfg outputPath inputPath
                                                   (fallback_page htmlContent)
                                                   (print_line
                                                      (''Error: Error executing template: '' @ e)
                                                      st1))
                                       | Inr output \<Rightarrow>
                                           Some (writeHTMLFile cfg outputPath inputPath output
                                                   st1)))))))))"

section \<open>The build\<close>

text \<open>\<open>handleRobotsTxt\<close> (main.go, lines 326-347).\<close>

definition defaultRobots :: string where
  "defaultRobots = ''User-agent: *\<newline>Allow: /\<newline>Sitemap: sitemap.xml''"

definition handleRobotsTxt :: "Configuration \<Rightarrow> string \<Rightarrow> string \<Rightarrow> fs_state \<Rightarrow> fs_state" where
  "handleRobotsTxt cfg inputDir outputDir st =
     (let inputRobots = filepath_Join [inputDir, ''robots.txt''];
          outputRobots = filepath_Join [outputDir, ''robots.txt'']
      in if in_node cfg st inputRobots \<noteq> None
         then snd (copyFile cfg inputRobots outputRobots st)
         else (case os_WriteFile cfg outputRobots defaultRobots st of
                 (Some e, st') \<Rightarrow>
                   print_line (''Error: Error writing robots.txt: '' @ err_text e) st'
               | (None, st') \<Rightarrow> st'))"

text \<open>
  The function \<open>build\<close> passes to the walk that processes the input tree (main.go,
  lines 128-151). Its state is the file system and the count of processed files.
  \<open>mirror_path\<close> is the \<open>outputPath\<close> of lines 133-134; the error of
  \<open>filepath.Rel\<close> is dropped there, which leaves the empty relative path.
\<close>

definition mirror_path :: "Configuration \<Rightarrow> string \<Rightarrow> string" where
  "mirror_path cfg path =
     (let relPath = (case filepath_Rel (InputDir cfg) path of
                       None \<Rightarrow> []
                     | Some r \<Rightarrow> r)
      in filepath_Join [OutputDir cfg, relPath])"

definition build_visit :: "collab \<Rightarrow> Configuration \<Rightarrow> (fs_state \<times> nat) WalkFunc" where
  "build_visit c cfg path info s =
     (case s of
        (st, count) \<Rightarrow>
          (case info of
             Inl e \<Rightarrow> (Stop e, (st, count))
           | Inr node \<Rightarrow>
               (let outputPath = mirror_path cfg path
                in if IsDir node then (Continue, (os_MkdirAll cfg outputPath st, count))
                   else if isMarkdownFile path then
                     (case renderMarkdown c cfg path outputPath (TemplatesDir cfg) st of
                        None \<Rightarrow> (Panic, (st, count))
                      | Some st' \<Rightarrow> (Continue, (st', count + 1)))
                   else if \<not> strings_HasPrefix (filepath_Base path) ''.'' then
                     (Continue,
                      (snd (copyFile cfg path outputPath
                              (os_MkdirAll cfg (filepath_Dir outputPath) st)),
                       count + 1))
                   else (Continue, (st, count)))))"

text \<open>\<open>os.RemoveAll\<close> of the output root.\<close>

definition os_RemoveAll :: "Configuration \<Rightarrow> string \<Rightarrow> fs_state \<Rightarrow> fs_state" where
  "os_RemoveAll cfg p st =
     (case under (OutputDir cfg) p of
        Some [] \<Rightarrow> st\<lparr>out_tree := None\<rparr>
      | _ \<Rightarrow> st)"

text \<open>
  \<open>build\<close> (main.go, lines 86-163). The first walk (lines 104-117) only prints the
  files found; with the input root present it cannot fail and is left out. The result
  is \<open>None\<close> when the run ends in a panic. The count of processed files is only
  printed by the program; \<open>build_count\<close> gives it.
\<close>

definition build_walk ::
  "collab \<Rightarrow> Configuration \<Rightarrow> fs_state \<Rightarrow> walk_ret \<times> fs_state \<times> nat" where
  "build_walk c cfg st =
     filepath_Walk (InputDir cfg) (in_node cfg st (InputDir cfg)) (build_visit c cfg)
       (os_MkdirAll cfg (OutputDir cfg) (os_RemoveAll cfg (OutputDir cfg) st), 0)"

definition build :: "collab \<Rightarrow> Configuration \<Rightarrow> fs_state \<Rightarrow> fs_state option" where
  "build c cfg st =
     (if in_node cfg st (InputDir cfg) = None then
        Some (print_line (''Error: Input directory does not exist: '' @ InputDir cfg) st)
      else if tmpl_node cfg st (TemplatesDir cfg) = None then
        Some (print_line (''Error: Templates directory does not exist: '' @ TemplatesDir cfg) st)
      else
        (case build_walk c cfg st of
           (Panic, s) \<Rightarrow> None
         | (Stop e, (st', count)) \<Rightarrow>
             Some (print_line (''Error: Error processing files: '' @ err_text e) st')
         | (r, (st', count)) \<Rightarrow>
             Some (handleRobotsTxt cfg (InputDir cfg) (OutputDir cfg) st')))"

definition build_count :: "collab \<Rightarrow> Configuration \<Rightarrow> fs_state \<Rightarrow> nat" where
  "build_count c cfg st = snd (snd (build_walk c cfg st))"

text \<open>\<open>parseFlags\<close> (main.go, lines 65-83) when no flag is given.\<close>

definition default_Configuration :: Configuration where
  "default_Configuration =
     \<lparr>InputDir = ''input'', OutputDir = ''output'', TemplatesDir = ''templates'',
      Serve = False, Host = ''0.0.0.0'', Port = 8000\<rparr>"

section \<open>The change watcher\<close>

text \<open>
  The variables the polling goroutine of \<open>serve\<close> works on (main.go, lines 376-377 and
  404-406): the map from path to last seen modification time, the time of the last
  rebuild, and the three variables reset at every tick. Times are nanoseconds.
\<close>

record watcher =
  lastModified :: "string \<rightharpoonup> int"
  lastRebuild :: int
  filesChanged :: bool
  changedSource :: string
  changedFile :: string

text \<open>\<open>initializeFileMap\<close> (main.go, lines 380-390); the result of the walk is dropped.\<close>

definition init_visit :: "(string \<rightharpoonup> int) WalkFunc" where
  "init_visit path info lm =
     (case info of
        Inl e \<Rightarrow> (Stop e, lm)
      | Inr node \<Rightarrow>
          (if \<not> IsDir node then (Continue, lm(path \<mapsto> ModTime node)) else (Continue, lm)))"

definition initializeFileMap :: "string \<Rightarrow> fsnode option \<Rightarrow> watcher \<Rightarrow> watcher" where
  "initializeFileMap dir tree w =
     w\<lparr>lastModified := snd (filepath_Walk dir tree init_visit (lastModified w))\<rparr>"

text \<open>
  The test of lines 432 and 465: the path is not in the map, or the file is newer than
  the recorded time.
\<close>

definition is_changed :: "watcher \<Rightarrow> string \<Rightarrow> int \<Rightarrow> bool" where
  "is_changed w path modTime =
     (case lastModified w path of
        None \<Rightarrow> True
      | Some lastMod \<Rightarrow> modTime > lastMod)"

definition mark_changed :: "string \<Rightarrow> string \<Rightarrow> int \<Rightarrow> watcher \<Rightarrow> watcher" where
  "mark_changed source path modTime w =
     w\<lparr>filesChanged := True, changedSource := source, changedFile := path,
       lastModified := (lastModified w)(path \<mapsto> modTime)\<rparr>"

text \<open>The function of the walk over the input directory (main.go, lines 409-440).\<close>

definition input_visit :: "watcher WalkFunc" where
  "input_visit path info w =
     (case info of
        Inl e \<Rightarrow> (Stop e, w)
      | Inr node \<Rightarrow>
          (if strings_HasPrefix (filepath_Base path) ''.'' then
             (if IsDir node then (SkipDir, w) else (Continue, w))
           else if strings_HasSuffix path ''.tmp'' then (Continue, w)
           else if \<not> IsDir node then
             (if is_changed w path (ModTime node)
              then (Continue, mark_changed ''input files'' path (ModTime node) w)
              else (Continue, w))
           else (Continue, w)))"

text \<open>The function of the walk over the templates directory (main.go, lines 447-473).\<close>

definition template_visit :: "watcher WalkFunc" where
  "template_visit path info w =
     (case info of
        Inl e \<Rightarrow> (Stop e, w)
      | Inr node \<Rightarrow>
          (if strings_HasPrefix (filepath_Base path) ''.'' then
             (if IsDir node then (SkipDir, w) else (Continue, w))
           else if \<not> IsDir node then
             (if is_changed w path (ModTime node)
              then (Continue, mark_changed ''template files'' path (ModTime node) w)
              else (Continue, w))
           else (Continue, w)))"

definition log_walk_error :: "walk_ret \<Rightarrow> fs_state \<Rightarrow> fs_state" where
  "log_walk_error r st =
     (case r of
        Stop e \<Rightarrow> print_line (''Error: Error checking for file changes: '' @ err_text e) st
      | _ \<Rightarrow> st)"

text \<open>
  The detection part of one tick (main.go, lines 404-477): the input walk, then the
  templates walk if the input walk found nothing.
\<close>

definition detect :: "Configuration \<Rightarrow> fs_state \<times> watcher \<Rightarrow> fs_state \<times> watcher" where
  "detect cfg s =
     (case s of
        (st, w) \<Rightarrow>
          (let w0 = w\<lparr>filesChanged := False, changedSource := [], changedFile := []\<rparr>
           in (case filepath_Walk (InputDir cfg) (in_node cfg st (InputDir cfg)) input_visit w0 of
                 (r1, w1) \<Rightarrow>
                   (let st1 = log_walk_error r1 st
                    in if \<not> filesChanged w1 then
                         (case filepath_Walk (TemplatesDir cfg)
                                 (tmpl_node cfg st1 (TemplatesDir cfg)) template_visit w1 of
                            (r2, w2) \<Rightarrow> (log_walk_error r2 st1, w2))
                       else (st1, w1)))))"

text \<open>
  One tick (main.go, lines 403-492). \<open>now\<close> is the clock when \<open>time.Since\<close> is
  evaluated, \<open>after\<close> the clock when the rebuild has returned. The trees do not change
  while the tick runs.
\<close>

definition rebuild_due :: "int \<Rightarrow> watcher \<Rightarrow> bool" where
  "rebuild_due now w = (filesChanged w \<and> now - lastRebuild w \<ge> 1000000000)"

definition tick ::
  "collab \<Rightarrow> Configuration \<Rightarrow> int \<Rightarrow> int \<Rightarrow> fs_state \<times> watcher \<Rightarrow> (fs_state \<times> watcher) option" where
  "tick c cfg now after s =
     (case detect cfg s of
        (st, w) \<Rightarrow>
          (if rebuild_due now w then
             (case build c cfg st of
                None \<Rightarrow> None
              | Some st' \<Rightarrow>
                  Some (st',
                        initializeFileMap (TemplatesDir cfg) (tmpl_node cfg st' (TemplatesDir cfg))
                          (initializeFileMap (InputDir cfg) (in_node cfg st' (InputDir cfg))
                             (w\<lparr>lastRebuild := after\<rparr>))))
           else Some (st, w)))"

text \<open>
  The start of \<open>serve\<close> (main.go, lines 351-394): the first build, the empty map, the
  first scan. The HTTP server is not part of the model.
\<close>

definition serve_start ::
  "collab \<Rightarrow> Configuration \<Rightarrow> int \<Rightarrow> fs_state \<Rightarrow> (fs_state \<times> watcher) option" where
  "serve_start c cfg now st =
     (case build c cfg st of
        None \<Rightarrow> None
      | Some st' \<Rightarrow>
          Some (st',
                initializeFileMap (TemplatesDir cfg) (tmpl_node cfg st' (TemplatesDir cfg))
                  (initializeFileMap (InputDir cfg) (in_node cfg st' (InputDir cfg))
                     \<lparr>lastModified = Map.empty, lastRebuild = now, filesChanged = False,
                      changedSource = [], changedFile = []\<rparr>)))"

text \<open>
  A run of ticks. Between ticks the input and template trees are edited from outside:
  each tick comes with the trees it finds and its two clock readings.
\<close>

record tick_env =
  env_input :: "fsnode option"
  env_templates :: "fsnode option"
  env_now :: int
  env_after :: int

fun run_ticks ::
  "collab \<Rightarrow> Configuration \<Rightarrow> tick_env list \<Rightarrow> fs_state \<times> watcher \<Rightarrow> (fs_state \<times> watcher) option" where
  "run_ticks c cfg [] s = Some s"
| "run_ticks c cfg (e # es) s =
     (case tick c cfg (env_now e) (env_after e)
             ((fst s)\<lparr>in_tree := env_input e, tmpl_tree := env_templates e\<rparr>, snd s) of
        None \<Rightarrow> None
      | Some s' \<Rightarrow> run_ticks c cfg es s')"

section \<open>Stand-ins for the collaborators, used in the closed examples\<close>

text \<open>
  A decoder for blocks of \<open>title: ...\<close> and \<open>template: ...\<close> lines that fails at any
  other non-empty line and leaves the fields it has set; a converter that wraps the text
  in a paragraph; a template engine that rejects the source \<open>{{\<close>, fails to execute
  \<open>{{.Content.Missing}}\<close>, and otherwise puts the title in a heading before the content.
\<close>

fun demo_yaml_lines :: "string list \<Rightarrow> FrontMatter \<Rightarrow> string option \<times> FrontMatter" where
  "demo_yaml_lines [] fm = (None, fm)"
| "demo_yaml_lines (l # ls) fm =
     (if l = [] then demo_yaml_lines ls fm
      else if strings_HasPrefix l ''title: '' then demo_yaml_lines ls (fm\<lparr>Title := drop 7 l\<rparr>)
      else if strings_HasPrefix l ''template: ''
        then demo_yaml_lines ls (fm\<lparr>Template := drop 10 l\<rparr>)
      else (Some ''yaml: cannot decode'', fm))"

definition demo_execute :: "string \<Rightarrow> (string \<rightharpoonup> tvalue) \<Rightarrow> string + string" where
  "demo_execute src data =
     (if src = ''{{.Content.Missing}}'' then Inl ''cannot evaluate field Missing''
      else (case (data ''Title'', data ''Content'') of
              (Some (GoString t), Some (HTML h)) \<Rightarrow> Inr (''<h1>'' @ t @ ''</h1>'' @ h)
            | _ \<Rightarrow> Inl ''no content''))"

definition demo :: collab where
  "demo =
     \<lparr>yaml_Unmarshal = (\<lambda>s fm. demo_yaml_lines (split_on (CHR ''\<newline>'') s) fm),
      md_Convert = (\<lambda>s. Inr (''<p>'' @ s @ ''</p>'')),
      template_Parse = (\<lambda>src. if src = ''{{'' then Some ''unclosed action'' else None),
      template_Execute = demo_execute\<rparr>"

section \<open>Example inputs\<close>

text \<open>File systems and texts at which the theorems below are evaluated.\<close>

definition st_no_input :: fs_state where
  "st_no_input =
     \<lparr>in_tree = None, tmpl_tree = Some (Dir []),
      out_tree = Some (Dir [(''old.html'', File ''kept'' 0)]), console = []\<rparr>"


definition text_inline_dashes :: string where
  "text_inline_dashes = ''---\<newline>title: a---\<newline>body''"

definition text_unterminated :: string where
  "text_unterminated = ''---\<newline>title: Hi\<newline># Hello''"

definition text_bad_yaml :: string where
  "text_bad_yaml = ''---\<newline>title: Hi\<newline>tags: 3\<newline>---\<newline># Hello''"


definition st_watch :: fs_state where
  "st_watch =
     \<lparr>in_tree = Some (Dir [(''a.md'', File ''hello'' 10),
                          (''.git'', Dir [(''HEAD'', File ''ref'' 50)]),
                          (''draft.tmp'', File ''x'' 50)]),
      tmpl_tree = Some (Dir [(''default.html'', File ''{{.Content}}'' 10),
                            (''page.html.tmp'', File ''x'' 50)]),
      out_tree = None, console = []\<rparr>"

definition st_both :: fs_state where
  "st_both =
     \<lparr>in_tree = Some (Dir [(''a.md'', File ''hello'' 50)]),
      tmpl_tree = Some (Dir [(''default.html'', File ''{{.Content}}'' 50)]),
      out_tree = None, console = []\<rparr>"

definition w_old :: watcher where
  "w_old =
     \<lparr>lastModified = [''input/a.md'' \<mapsto> 10, ''input/.git/HEAD'' \<mapsto> 10,
                       ''input/draft.tmp'' \<mapsto> 10, ''input/gone.md'' \<mapsto> 5,
                       ''templates/default.html'' \<mapsto> 10,
                       ''templates/page.html.tmp'' \<mapsto> 10],
      lastRebuild = 0, filesChanged = False, changedSource = [], changedFile = []\<rparr>"

definition st_later :: fs_state where
  "st_later =
     \<lparr>in_tree = Some (Dir [(''a.md'', File ''hello'' 50)]),
      tmpl_tree = Some (Dir [(''default.html'', File ''{{.Content}}'' 10)]),
      out_tree = None, console = []\<rparr>"

definition env_later :: "int \<Rightarrow> tick_env" where
  "env_later now =
     \<lparr>env_input = in_tree st_later, env_templates = tmpl_tree st_later,
      env_now = now, env_after = now + 100\<rparr>"



section \<open>Notions used in the statements\<close>

text \<open>
  The reading of "a closing \<open>---\<close> line" by the words of the specification: some line
  after the first consists solely of \<open>---\<close> (the last line counts also without a
  newline after it).
\<close>

definition spec_closing_delimiter_line :: "string \<Rightarrow> bool" where
  "spec_closing_delimiter_line content =
     (''---'' \<in> set (tl (split_on (CHR ''\<newline>'') content)))"

text \<open>
  A walk function \<open>answers prune\<close> when it returns \<open>SkipDir\<close> at the directories
  \<open>prune\<close> holds for and \<open>nil\<close> at every other entry; \<open>effects\<close> runs it over a
  list of entries.
\<close>

definition answers :: "(string \<Rightarrow> bool) \<Rightarrow> 's WalkFunc \<Rightarrow> bool" where
  "answers prune fn =
     (\<forall>p n s. fst (fn p (Inr n) s) = (if IsDir n \<and> prune p then SkipDir else Continue))"

definition effects :: "'s WalkFunc \<Rightarrow> (string \<times> fsnode) list \<Rightarrow> 's \<Rightarrow> 's" where
  "effects fn es s = fold (\<lambda>(q, m) s. snd (fn q (Inr m) s)) es s"

text \<open>
  A hidden path; the entries a walk calls its function on, for a tree that may be
  missing; the entries the two calls of \<open>initializeFileMap\<close> visit; the modification
  times of the files a list of entries has at a path, in the order of the entries (in a
  file system a path names one file, so there is at most one); that a path has
  modification time \<open>t\<close> wherever the two trees hold it as a file; and that no file at
  another path is new or newer than the watcher has recorded.
\<close>

definition hidden :: "string \<Rightarrow> bool" where
  "hidden path = strings_HasPrefix (filepath_Base path) ''.''"

definition walk_entries ::
  "(string \<Rightarrow> bool) \<Rightarrow> string \<Rightarrow> fsnode option \<Rightarrow> (string \<times> fsnode) list" where
  "walk_entries prune dir tree = (case tree of None \<Rightarrow> [] | Some n \<Rightarrow> walk_list prune dir n)"

definition scanned ::
  "Configuration \<Rightarrow> fsnode option \<Rightarrow> fsnode option \<Rightarrow> (string \<times> fsnode) list" where
  "scanned cfg it tt =
     walk_entries (\<lambda>p. False) (InputDir cfg) it @ walk_entries (\<lambda>p. False) (TemplatesDir cfg) tt"

definition file_times :: "(string \<times> fsnode) list \<Rightarrow> string \<Rightarrow> int list" where
  "file_times es p = map (ModTime \<circ> snd) (filter (\<lambda>(q, n). q = p \<and> \<not> IsDir n) es)"

definition has_time ::
  "Configuration \<Rightarrow> fsnode option \<Rightarrow> fsnode option \<Rightarrow> string \<Rightarrow> int \<Rightarrow> bool" where
  "has_time cfg it tt p t = (\<forall>t' \<in> set (file_times (scanned cfg it tt) p). t' = t)"

definition others_unchanged ::
  "Configuration \<Rightarrow> fsnode option \<Rightarrow> fsnode option \<Rightarrow> watcher \<Rightarrow> string \<Rightarrow> bool" where
  "others_unchanged cfg it tt w p =
     (\<forall>(q, n) \<in> set (scanned cfg it tt). q \<noteq> p \<and> \<not> IsDir n \<longrightarrow> \<not> is_changed w q (ModTime n))"

text \<open>Properties shared by the two detection functions, for a fixed path \<open>p\<close>.\<close>

definition detector :: "string \<Rightarrow> watcher WalkFunc \<Rightarrow> bool" where
  "detector p fn =
     ((\<forall>q i w. filesChanged w \<longrightarrow> filesChanged (snd (fn q i w)))
      \<and> (\<forall>q n w. q \<noteq> p \<or> IsDir n \<longrightarrow> lastModified (snd (fn q (Inr n) w)) p = lastModified w p)
      \<and> (\<forall>n w. lastModified (snd (fn p (Inr n) w)) p = lastModified w p
                 \<or> (lastModified (snd (fn p (Inr n) w)) p = Some (ModTime n)
                     \<and> filesChanged (snd (fn p (Inr n) w))))
      \<and> (\<forall>q n w. IsDir n \<or> \<not> is_changed w q (ModTime n) \<longrightarrow> snd (fn q (Inr n) w) = w)
      \<and> (\<forall>q i w. snd (fn q i w) = w \<or> filesChanged (snd (fn q i w)))
      \<and> (\<forall>q i w. lastRebuild (snd (fn q i w)) = lastRebuild w))"



definition path_of :: "string \<Rightarrow> string list \<Rightarrow> string" where
  "path_of r cs = r @ concat (map (\<lambda>c. CHR ''/'' # c) cs)"







section \<open>Lemmas\<close>

lemma under_self: "under r r = Some []"
  by (simp add: under_def filepath_Rel_def)

lemma in_node_root: "in_node cfg st (InputDir cfg) = in_tree st"
  by (cases "in_tree st") (simp_all add: in_node_def under_self)

lemma tmpl_node_root: "tmpl_node cfg st (TemplatesDir cfg) = tmpl_tree st"
  by (cases "tmpl_tree st") (simp_all add: tmpl_node_def under_self)

lemma HasPrefix_iff: "strings_HasPrefix s pre \<longleftrightarrow> (\<exists>v. s = pre @ v)"
  unfolding strings_HasPrefix_def
  by (metis append_eq_conv_conj append_take_drop_id)

lemma Index_lower: "- 1 \<le> strings_Index s sub"
  by (induction s) (auto simp: Let_def)

lemma Index_none_iff: "strings_Index s sub = - 1 \<longleftrightarrow> \<not> (\<exists>u v. s = u @ sub @ v)"
proof (induction s)
  case Nil
  then show ?case by auto
next
  case (Cons c cs)
  show ?case
  proof (cases "strings_HasPrefix (c # cs) sub")
    case True
    then obtain v where "c # cs = [] @ sub @ v" by (auto simp: HasPrefix_iff)
    then have "\<exists>u v. c # cs = u @ sub @ v" by blast
    with True show ?thesis by simp
  next
    case False
    have "(\<exists>u v. c # cs = u @ sub @ v) \<longleftrightarrow> (\<exists>u v. cs = u @ sub @ v)"
    proof
      assume "\<exists>u v. c # cs = u @ sub @ v"
      then obtain u v where uv: "c # cs = u @ sub @ v" by blast
      show "\<exists>u v. cs = u @ sub @ v"
      proof (cases u)
        case Nil
        with uv have "strings_HasPrefix (c # cs) sub" by (auto simp: HasPrefix_iff)
        with False show ?thesis by simp
      next
        case (Cons a u')
        with uv have "cs = u' @ sub @ v" by simp
        then show ?thesis by blast
      qed
    next
      assume "\<exists>u v. cs = u @ sub @ v"
      then obtain u v where "cs = u @ sub @ v" by blast
      then have "c # cs = (c # u) @ sub @ v" by simp
      then show "\<exists>u v. c # cs = u @ sub @ v" by blast
    qed
    with False Cons.IH Index_lower[of cs sub] show ?thesis
      by (auto simp: Let_def)
  qed
qed

lemma Index_found:
  "strings_Index s sub = i \<Longrightarrow> i \<noteq> - 1 \<Longrightarrow>
     0 \<le> i \<and> s = take (nat i) s @ sub @ drop (nat i + length sub) s"
proof (induction s arbitrary: i)
  case Nil
  then show ?case by (auto split: if_splits)
next
  case (Cons c cs)
  show ?case
  proof (cases "strings_HasPrefix (c # cs) sub")
    case True
    with Cons.prems have "i = 0" by simp
    moreover from True obtain v where "c # cs = sub @ v" by (auto simp: HasPrefix_iff)
    ultimately show ?thesis
      by (metis append_Nil append_eq_conv_conj nat_zero_as_int take0 add_0 order_refl)
  next
    case False
    define j where "j = strings_Index cs sub"
    from False Cons.prems have j: "j \<noteq> - 1" "i = j + 1"
      by (auto simp: Let_def j_def split: if_splits)
    from Cons.IH[OF j_def[symmetric] j(1)]
    have ih: "0 \<le> j" "cs = take (nat j) cs @ sub @ drop (nat j + length sub) cs"
      by auto
    have n: "nat (j + 1) = Suc (nat j)" using ih(1) by simp
    have "c # cs = take (Suc (nat j)) (c # cs) @ sub @ drop (Suc (nat j) + length sub) (c # cs)"
      using ih(2) by simp
    with ih(1) show ?thesis unfolding j(2) n by simp
  qed
qed







lemma effects_simps [simp]:
  "effects fn [] s = s"
  "effects fn ((q, m) # es) s = effects fn es (snd (fn q (Inr m) s))"
  "effects fn (es @ es') s = effects fn es' (effects fn es s)"
  by (simp_all add: effects_def)

lemma walk_effects:
  "answers prune fn \<Longrightarrow> walk p n fn s
           = (if IsDir n \<and> prune p then SkipDir else Continue,
              effects fn (walk_list prune p n) s)"
  "answers prune fn \<Longrightarrow> walk_names p chs fn s
           = (Continue, effects fn (walk_list_names prune p chs) s)"
proof (induction p n fn s and p chs fn s rule: walk_walk_names.induct)
  case (1 path d t fn s)
  then have "fst (fn path (Inr (File d t)) s) = Continue" by (simp add: answers_def)
  then show ?case by (cases "fn path (Inr (File d t)) s") simp
next
  case (2 path chs fn s)
  obtain r s' where f: "fn path (Inr (Dir chs)) s = (r, s')" by force
  from "2.prems"
  have a: "fst (fn path (Inr (Dir chs)) s) = (if prune path then SkipDir else Continue)"
    by (simp add: answers_def)
  show ?case
  proof (cases "prune path")
    case True
    with a f have "r = SkipDir" by simp
    with f True show ?thesis by simp
  next
    case False
    with a f have r: "r = Continue" by simp
    from "2.IH"[OF f[symmetric, unfolded r] refl "2.prems"] f r False show ?thesis by simp
  qed
next
  case (3 path fn s)
  show ?case by simp
next
  case (4 path name ch rest fn s)
  let ?p = "filepath_Join [path, name]"
  let ?s' = "effects fn (walk_list prune ?p ch) s"
  have w: "walk ?p ch fn s = (if IsDir ch \<and> prune ?p then SkipDir else Continue, ?s')"
    by (rule "4.IH"(1)[OF "4.prems"])
  show ?case
  proof (cases "IsDir ch \<and> prune ?p")
    case True
    with w have w': "walk ?p ch fn s = (SkipDir, ?s')" by simp
    from "4.IH"(3)[OF w'[symmetric] refl _ "4.prems"] True w' show ?thesis by simp
  next
    case False
    with w have w': "walk ?p ch fn s = (Continue, ?s')" by simp
    from "4.IH"(2)[OF w'[symmetric] refl "4.prems"] w' show ?thesis by simp
  qed
qed

lemma walk_invariant:
  "(\<forall>p i s. P s \<longrightarrow> P (snd (fn p i s))) \<Longrightarrow> P s \<Longrightarrow> P (snd (walk p n fn s))"
  "(\<forall>p i s. P s \<longrightarrow> P (snd (fn p i s))) \<Longrightarrow> P s \<Longrightarrow> P (snd (walk_names p chs fn s))"
proof (induction p n fn s and p chs fn s rule: walk_walk_names.induct)
  case (1 path d t fn s)
  then show ?case by simp
next
  case (2 path chs fn s)
  obtain r s' where f: "fn path (Inr (Dir chs)) s = (r, s')" by force
  have ps': "P s'" using "2.prems" f by (metis snd_conv)
  show ?case
  proof (cases r)
    case Continue
    from "2.IH"[OF f[symmetric, unfolded Continue] refl "2.prems"(1) ps'] f Continue
    show ?thesis by simp
  qed (use f ps' in simp_all)
next
  case (3 path fn s)
  then show ?case by simp
next
  case (4 path name ch rest fn s)
  let ?p = "filepath_Join [path, name]"
  obtain r s' where w: "walk ?p ch fn s = (r, s')" by force
  have ps': "P s'" using "4.IH"(1)[OF "4.prems"] w by simp
  show ?case
  proof (cases r)
    case Continue
    from "4.IH"(2)[OF w[symmetric, unfolded Continue] refl "4.prems"(1) ps'] w Continue
    show ?thesis by simp
  next
    case SkipDir
    show ?thesis
    proof (cases "IsDir ch")
      case True
      from "4.IH"(3)[OF w[symmetric, unfolded SkipDir] refl True "4.prems"(1) ps'] w SkipDir True
      show ?thesis by simp
    next
      case False
      with w SkipDir ps' show ?thesis by simp
    qed
  qed (use w ps' in simp_all)
qed

lemma answers_init: "answers (\<lambda>p. False) init_visit"
  by (simp add: answers_def init_visit_def)

lemma answers_input: "answers hidden input_visit"
  by (simp add: answers_def input_visit_def hidden_def)

lemma answers_template: "answers hidden template_visit"
  by (simp add: answers_def template_visit_def hidden_def)

lemma Walk_init:
  "snd (filepath_Walk dir tree init_visit lm)
     = effects init_visit (walk_entries (\<lambda>p. False) dir tree) lm"
  by (cases tree)
     (simp_all add: filepath_Walk_def walk_entries_def walk_effects(1)[OF answers_init] init_visit_def)

lemma Walk_input:
  "snd (filepath_Walk dir tree input_visit w) = effects input_visit (walk_entries hidden dir tree) w"
  by (cases tree)
     (simp_all add: filepath_Walk_def walk_entries_def walk_effects(1)[OF answers_input] input_visit_def)

lemma Walk_template:
  "snd (filepath_Walk dir tree template_visit w) = effects template_visit (walk_entries hidden dir tree) w"
  by (cases tree)
     (simp_all add: filepath_Walk_def walk_entries_def walk_effects(1)[OF answers_template] template_visit_def)

lemma walk_list_subset:
  "set (walk_list prune p n) \<subseteq> set (walk_list (\<lambda>p. False) p n)"
  "set (walk_list_names prune p chs) \<subseteq> set (walk_list_names (\<lambda>p. False) p chs)"
  by (induction prune p n and prune p chs rule: walk_list_walk_list_names.induct) auto

lemma walk_entries_subset:
  "set (walk_entries prune dir tree) \<subseteq> set (walk_entries (\<lambda>p. False) dir tree)"
  by (cases tree) (simp_all add: walk_entries_def walk_list_subset)

lemma effects_invariant:
  "(\<forall>(q, m) \<in> set es. \<forall>s. P s \<longrightarrow> P (snd (fn q (Inr m) s))) \<Longrightarrow> P s \<Longrightarrow> P (effects fn es s)"
  by (induction es arbitrary: s) auto

lemma os_MkdirAll_frame:
  "in_tree (os_MkdirAll cfg p st) = in_tree st \<and> tmpl_tree (os_MkdirAll cfg p st) = tmpl_tree st"
  by (auto simp: os_MkdirAll_def split: option.splits sum.splits)

lemma os_WriteFile_frame:
  "in_tree (snd (os_WriteFile cfg p d st)) = in_tree st
   \<and> tmpl_tree (snd (os_WriteFile cfg p d st)) = tmpl_tree st"
  by (auto simp: os_WriteFile_def split: option.splits sum.splits)

lemma copyFile_frame:
  "in_tree (snd (copyFile cfg src dst st)) = in_tree st
   \<and> tmpl_tree (snd (copyFile cfg src dst st)) = tmpl_tree st"
proof -
  have "in_tree (snd (os_WriteFile cfg dst d st)) = in_tree st
   \<and> tmpl_tree (snd (os_WriteFile cfg dst d st)) = tmpl_tree st" for d
    by (rule os_WriteFile_frame)
  then show ?thesis
    by (auto simp: copyFile_def split: option.splits fsnode.splits prod.splits)
       (metis snd_conv)+
qed

lemma writeHTMLFile_frame:
  "in_tree (writeHTMLFile cfg op ip d st) = in_tree st
   \<and> tmpl_tree (writeHTMLFile cfg op ip d st) = tmpl_tree st"
proof -
  let ?st1 = "os_MkdirAll cfg (filepath_Dir (outputHTMLPath op ip)) st"
  obtain r st2 where w: "os_WriteFile cfg (outputHTMLPath op ip) d ?st1 = (r, st2)" by force
  with os_WriteFile_frame[of cfg "outputHTMLPath op ip" d ?st1]
  have "in_tree st2 = in_tree st \<and> tmpl_tree st2 = tmpl_tree st"
    by (simp add: os_MkdirAll_frame)
  with w show ?thesis
    by (cases r) (simp_all add: writeHTMLFile_def Let_def print_line_def)
qed

lemma renderMarkdown_frame:
  "renderMarkdown c cfg ip op td st = Some st' \<Longrightarrow>
     in_tree st' = in_tree st \<and> tmpl_tree st' = tmpl_tree st"
  by (auto simp: renderMarkdown_def Let_def print_line_def writeHTMLFile_frame
           split: sum.splits prod.splits option.splits)

lemma handleRobotsTxt_frame:
  "in_tree (handleRobotsTxt cfg i o' st) = in_tree st
   \<and> tmpl_tree (handleRobotsTxt cfg i o' st) = tmpl_tree st"
proof -
  let ?p = "filepath_Join [o', ''robots.txt'']"
  obtain r st2 where w: "os_WriteFile cfg ?p defaultRobots st = (r, st2)" by force
  with os_WriteFile_frame[of cfg ?p defaultRobots st]
  have "in_tree st2 = in_tree st \<and> tmpl_tree st2 = tmpl_tree st" by simp
  with w show ?thesis
    by (cases r) (simp_all add: handleRobotsTxt_def Let_def print_line_def copyFile_frame)
qed

lemma build_visit_frame:
  "in_tree (fst (snd (build_visit c cfg p i s))) = in_tree (fst s)
   \<and> tmpl_tree (fst (snd (build_visit c cfg p i s))) = tmpl_tree (fst s)"
  by (cases s; cases i)
     (auto simp: build_visit_def Let_def os_MkdirAll_frame copyFile_frame
           dest: renderMarkdown_frame split: option.splits)

lemma build_walk_frame:
  "in_tree (fst (snd (build_walk c cfg st))) = in_tree st
   \<and> tmpl_tree (fst (snd (build_walk c cfg st))) = tmpl_tree st"
proof -
  let ?P = "\<lambda>s. in_tree (fst s) = in_tree st \<and> tmpl_tree (fst s) = tmpl_tree st"
  let ?s0 = "(os_MkdirAll cfg (OutputDir cfg) (os_RemoveAll cfg (OutputDir cfg) st), 0::nat)"
  have step: "\<forall>p i s. ?P s \<longrightarrow> ?P (snd (build_visit c cfg p i s))"
    using build_visit_frame by metis
  have p0: "?P ?s0"
    by (simp add: os_MkdirAll_frame os_RemoveAll_def under_self)
  have "?P (snd (filepath_Walk (InputDir cfg) (in_node cfg st (InputDir cfg)) (build_visit c cfg) ?s0))"
  proof (cases "in_node cfg st (InputDir cfg)")
    case None
    then show ?thesis using p0 by (simp add: filepath_Walk_def build_visit_def)
  next
    case (Some n)
    obtain r s' where w: "walk (InputDir cfg) n (build_visit c cfg) ?s0 = (r, s')"
      by (cases "walk (InputDir cfg) n (build_visit c cfg) ?s0") blast
    from walk_invariant(1)[of ?P "build_visit c cfg", OF step p0, of "InputDir cfg" n] w
    have "?P s'" by simp
    with w Some show ?thesis by (cases r) (simp_all add: filepath_Walk_def)
  qed
  then show ?thesis by (simp add: build_walk_def)
qed

lemma build_frame:
  "build c cfg st = Some st' \<Longrightarrow> in_tree st' = in_tree st \<and> tmpl_tree st' = tmpl_tree st"
proof -
  assume b: "build c cfg st = Some st'"
  obtain r st1 n where w: "build_walk c cfg st = (r, st1, n)" by (metis prod_cases3)
  with build_walk_frame[of c cfg st] have f: "in_tree st1 = in_tree st \<and> tmpl_tree st1 = tmpl_tree st"
    by simp
  from b w f show ?thesis
    by (cases r) (auto simp: build_def print_line_def handleRobotsTxt_frame split: if_splits)
qed

lemma init_visit_other:
  "q \<noteq> p \<or> IsDir n \<Longrightarrow> snd (init_visit q (Inr n) lm) p = lm p"
  by (auto simp: init_visit_def)

lemma effects_init_untouched:
  "(\<forall>n. (p, n) \<in> set es \<longrightarrow> IsDir n) \<Longrightarrow> effects init_visit es lm p = lm p"
proof (induction es arbitrary: lm)
  case Nil
  then show ?case by simp
next
  case (Cons e es)
  obtain q m where e: "e = (q, m)" by force
  from Cons.prems e have "q \<noteq> p \<or> IsDir m" by auto
  then have "snd (init_visit q (Inr m) lm) p = lm p" by (rule init_visit_other)
  moreover from Cons.prems have "\<forall>n. (p, n) \<in> set es \<longrightarrow> IsDir n" by auto
  ultimately show ?case using Cons.IH e by simp
qed

lemma file_times_Cons:
  "file_times ((q, m) # es) p
     = (if q = p \<and> \<not> IsDir m then ModTime m # file_times es p else file_times es p)"
  by (simp add: file_times_def)

lemma file_times_Nil: "file_times [] p = []"
  by (simp add: file_times_def)

lemma set_file_times:
  "set (file_times es p) = {ModTime n |n. (p, n) \<in> set es \<and> \<not> IsDir n}"
proof (induction es)
  case Nil
  then show ?case by (simp add: file_times_Nil)
next
  case (Cons e es)
  obtain q m where e: "e = (q, m)" by force
  show ?case unfolding e by (auto simp: file_times_Cons Cons.IH)
qed

lemma file_times_empty_iff:
  "file_times es p = [] \<longleftrightarrow> (\<forall>n. (p, n) \<in> set es \<longrightarrow> IsDir n)"
proof (induction es)
  case Nil
  then show ?case by (simp add: file_times_Nil)
next
  case (Cons e es)
  obtain q m where e: "e = (q, m)" by force
  show ?case unfolding e using Cons.IH by (auto simp: file_times_Cons)
qed

lemma effects_init_exact:
  "effects init_visit es lm p
     = (if file_times es p = [] then lm p else Some (last (file_times es p)))"
proof (induction es arbitrary: lm)
  case Nil
  then show ?case by (simp add: file_times_def)
next
  case (Cons e es)
  obtain q m where e: "e = (q, m)" by force
  show ?case
    unfolding e by (simp add: Cons.IH file_times_Cons) (simp add: init_visit_def)
qed

lemma input_visit_other:
  "q \<noteq> p \<or> IsDir n \<Longrightarrow> lastModified (snd (input_visit q (Inr n) w)) p = lastModified w p"
  by (auto simp: input_visit_def mark_changed_def)

lemma template_visit_other:
  "q \<noteq> p \<or> IsDir n \<Longrightarrow> lastModified (snd (template_visit q (Inr n) w)) p = lastModified w p"
  by (auto simp: template_visit_def mark_changed_def)

lemma effects_input_untouched:
  "(\<forall>n. (p, n) \<in> set es \<longrightarrow> IsDir n) \<Longrightarrow>
     lastModified (effects input_visit es w) p = lastModified w p"
proof (induction es arbitrary: w)
  case Nil
  then show ?case by simp
next
  case (Cons e es)
  obtain q m where e: "e = (q, m)" by force
  from Cons.prems e have "q \<noteq> p \<or> IsDir m" by auto
  then have "lastModified (snd (input_visit q (Inr m) w)) p = lastModified w p"
    by (rule input_visit_other)
  moreover from Cons.prems have "\<forall>n. (p, n) \<in> set es \<longrightarrow> IsDir n" by auto
  ultimately show ?case using Cons.IH e by simp
qed

lemma effects_template_untouched:
  "(\<forall>n. (p, n) \<in> set es \<longrightarrow> IsDir n) \<Longrightarrow>
     lastModified (effects template_visit es w) p = lastModified w p"
proof (induction es arbitrary: w)
  case Nil
  then show ?case by simp
next
  case (Cons e es)
  obtain q m where e: "e = (q, m)" by force
  from Cons.prems e have "q \<noteq> p \<or> IsDir m" by auto
  then have "lastModified (snd (template_visit q (Inr m) w)) p = lastModified w p"
    by (rule template_visit_other)
  moreover from Cons.prems have "\<forall>n. (p, n) \<in> set es \<longrightarrow> IsDir n" by auto
  ultimately show ?case using Cons.IH e by simp
qed

text \<open>What \<open>detect\<close> computes, with the walks written as runs over their entries.\<close>

lemma detect_watcher:
  "snd (detect cfg (st, w))
     = (let w1 = effects input_visit (walk_entries hidden (InputDir cfg) (in_tree st))
                   (w\<lparr>filesChanged := False, changedSource := [], changedFile := []\<rparr>)
        in if \<not> filesChanged w1
           then effects template_visit (walk_entries hidden (TemplatesDir cfg) (tmpl_tree st)) w1
           else w1)"
proof -
  let ?w0 = "w\<lparr>filesChanged := False, changedSource := [], changedFile := []\<rparr>"
  obtain r1 w1 where a: "filepath_Walk (InputDir cfg) (in_tree st) input_visit ?w0 = (r1, w1)"
    by force
  with Walk_input[of "InputDir cfg" "in_tree st" ?w0]
  have w1: "w1 = effects input_visit (walk_entries hidden (InputDir cfg) (in_tree st)) ?w0"
    by simp
  obtain r2 w2 where b: "filepath_Walk (TemplatesDir cfg) (tmpl_tree st) template_visit w1 = (r2, w2)"
    by force
  with Walk_template[of "TemplatesDir cfg" "tmpl_tree st" w1]
  have w2: "w2 = effects template_visit (walk_entries hidden (TemplatesDir cfg) (tmpl_tree st)) w1"
    by simp
  have t: "tmpl_tree (log_walk_error r1 st) = tmpl_tree st"
    by (cases r1) (simp_all add: log_walk_error_def print_line_def)
  have "snd (detect cfg (st, w)) = (if \<not> filesChanged w1 then w2 else w1)"
    using a b by (simp add: detect_def Let_def in_node_root tmpl_node_root t)
  then show ?thesis using w1 w2 by (simp add: Let_def)
qed

lemma detect_files:
  "in_tree (fst (detect cfg (st, w))) = in_tree st
   \<and> tmpl_tree (fst (detect cfg (st, w))) = tmpl_tree st
   \<and> out_tree (fst (detect cfg (st, w))) = out_tree st"
proof -
  have l: "in_tree (log_walk_error r s) = in_tree s \<and> tmpl_tree (log_walk_error r s) = tmpl_tree s
           \<and> out_tree (log_walk_error r s) = out_tree s" for r s
    by (cases r) (simp_all add: log_walk_error_def print_line_def)
  show ?thesis
    by (auto simp: detect_def Let_def l split: prod.splits)
qed

lemma detect_untouched:
  assumes "\<forall>n. (p, n) \<in> set (scanned cfg (in_tree st) (tmpl_tree st)) \<longrightarrow> IsDir n"
  shows "lastModified (snd (detect cfg (st, w))) p = lastModified w p"
proof -
  from assms walk_entries_subset[of hidden "InputDir cfg" "in_tree st"]
  have i: "\<forall>n. (p, n) \<in> set (walk_entries hidden (InputDir cfg) (in_tree st)) \<longrightarrow> IsDir n"
    by (auto simp: scanned_def)
  from assms walk_entries_subset[of hidden "TemplatesDir cfg" "tmpl_tree st"]
  have t: "\<forall>n. (p, n) \<in> set (walk_entries hidden (TemplatesDir cfg) (tmpl_tree st)) \<longrightarrow> IsDir n"
    by (auto simp: scanned_def)
  show ?thesis
    by (simp add: detect_watcher Let_def effects_input_untouched[OF i]
          effects_template_untouched[OF t])
qed

lemma tick_rebuild:
  assumes "tick c cfg now after (st, w) = Some (st', w')"
    and "rebuild_due now (snd (detect cfg (st, w)))"
  shows "lastRebuild w' = after
         \<and> lastModified w'
             = effects init_visit (scanned cfg (in_tree st) (tmpl_tree st))
                 (lastModified (snd (detect cfg (st, w))))"
proof -
  obtain st1 w1 where d: "detect cfg (st, w) = (st1, w1)" by force
  with assms obtain st2 where b: "build c cfg st1 = Some st2" and s: "st' = st2"
    and w': "w' = initializeFileMap (TemplatesDir cfg) (tmpl_node cfg st2 (TemplatesDir cfg))
                    (initializeFileMap (InputDir cfg) (in_node cfg st2 (InputDir cfg))
                       (w1\<lparr>lastRebuild := after\<rparr>))"
    by (auto simp: tick_def split: option.splits)
  from build_frame[OF b] detect_files[of cfg st w] d
  have f: "in_tree st2 = in_tree st" "tmpl_tree st2 = tmpl_tree st" by auto
  show ?thesis
    using d by (simp add: w' initializeFileMap_def Walk_init in_node_root tmpl_node_root f scanned_def)
qed

lemma detector_input: "detector p input_visit"
proof -
  have 1: "filesChanged w \<longrightarrow> filesChanged (snd (input_visit q i w))" for q i w
    by (cases i) (simp_all add: input_visit_def mark_changed_def)
  have 2: "q \<noteq> p \<or> IsDir n \<longrightarrow> lastModified (snd (input_visit q (Inr n) w)) p = lastModified w p"
    for q n w
    by (auto simp: input_visit_def mark_changed_def)
  have 3: "lastModified (snd (input_visit p (Inr n) w)) p = lastModified w p
           \<or> (lastModified (snd (input_visit p (Inr n) w)) p = Some (ModTime n)
               \<and> filesChanged (snd (input_visit p (Inr n) w)))" for n w
    by (simp add: input_visit_def mark_changed_def)
  have 4: "IsDir n \<or> \<not> is_changed w q (ModTime n) \<longrightarrow> snd (input_visit q (Inr n) w) = w"
    for q n w
    by (auto simp: input_visit_def)
  have 5: "snd (input_visit q i w) = w \<or> filesChanged (snd (input_visit q i w))" for q i w
    by (cases i) (simp_all add: input_visit_def mark_changed_def)
  have 6: "lastRebuild (snd (input_visit q i w)) = lastRebuild w" for q i w
    by (cases i) (simp_all add: input_visit_def mark_changed_def)
  from 1 2 3 4 5 6 show ?thesis unfolding detector_def by blast
qed

lemma detector_template: "detector p template_visit"
proof -
  have 1: "filesChanged w \<longrightarrow> filesChanged (snd (template_visit q i w))" for q i w
    by (cases i) (simp_all add: template_visit_def mark_changed_def)
  have 2: "q \<noteq> p \<or> IsDir n \<longrightarrow> lastModified (snd (template_visit q (Inr n) w)) p = lastModified w p"
    for q n w
    by (auto simp: template_visit_def mark_changed_def)
  have 3: "lastModified (snd (template_visit p (Inr n) w)) p = lastModified w p
           \<or> (lastModified (snd (template_visit p (Inr n) w)) p = Some (ModTime n)
               \<and> filesChanged (snd (template_visit p (Inr n) w)))" for n w
    by (simp add: template_visit_def mark_changed_def)
  have 4: "IsDir n \<or> \<not> is_changed w q (ModTime n) \<longrightarrow> snd (template_visit q (Inr n) w) = w"
    for q n w
    by (auto simp: template_visit_def)
  have 5: "snd (template_visit q i w) = w \<or> filesChanged (snd (template_visit q i w))" for q i w
    by (cases i) (simp_all add: template_visit_def mark_changed_def)
  have 6: "lastRebuild (snd (template_visit q i w)) = lastRebuild w" for q i w
    by (cases i) (simp_all add: template_visit_def mark_changed_def)
  from 1 2 3 4 5 6 show ?thesis unfolding detector_def by blast
qed

lemma detectorD1: "detector p fn \<Longrightarrow> filesChanged w \<Longrightarrow> filesChanged (snd (fn q i w))"
  by (simp add: detector_def)

lemma detectorD2:
  "detector p fn \<Longrightarrow> q \<noteq> p \<or> IsDir n \<Longrightarrow>
     lastModified (snd (fn q (Inr n) w)) p = lastModified w p"
  by (simp add: detector_def)

lemma detectorD3:
  "detector p fn \<Longrightarrow>
     lastModified (snd (fn p (Inr n) w)) p = lastModified w p
     \<or> (lastModified (snd (fn p (Inr n) w)) p = Some (ModTime n)
         \<and> filesChanged (snd (fn p (Inr n) w)))"
  by (simp add: detector_def)

lemma detectorD4:
  "detector p fn \<Longrightarrow> IsDir n \<or> \<not> is_changed w q (ModTime n) \<Longrightarrow> snd (fn q (Inr n) w) = w"
  unfolding detector_def by blast

lemma detectorD5: "detector p fn \<Longrightarrow> snd (fn q i w) = w \<or> filesChanged (snd (fn q i w))"
  unfolding detector_def by blast

lemma detectorD6: "detector p fn \<Longrightarrow> lastRebuild (snd (fn q i w)) = lastRebuild w"
  unfolding detector_def by blast

lemma is_changed_cong:
  "lastModified w' p = lastModified w p \<Longrightarrow> is_changed w' p t = is_changed w p t"
  by (simp add: is_changed_def)

lemma not_changed_recorded: "lastModified w p = Some t \<Longrightarrow> \<not> is_changed w p t"
  by (simp add: is_changed_def)

lemma detector_keep_step:
  assumes "detector p fn" and "lastModified w p = Some t"
    and "q = p \<and> \<not> IsDir n \<longrightarrow> ModTime n = t"
  shows "lastModified (snd (fn q (Inr n) w)) p = Some t"
proof (cases "q = p \<and> \<not> IsDir n")
  case True
  with assms(3) have "ModTime n = t" and "q = p" by simp_all
  with detectorD3[OF assms(1), of n w] assms(2) show ?thesis by auto
next
  case False
  then have "q \<noteq> p \<or> IsDir n" by blast
  from detectorD2[OF assms(1) this, of w] assms(2) show ?thesis by simp
qed

lemma detector_keep:
  assumes "detector p fn" and "\<forall>t' \<in> set (file_times es p). t' = t"
    and "lastModified w p = Some t"
  shows "lastModified (effects fn es w) p = Some t"
proof -
  have "\<forall>(q, m) \<in> set es. \<forall>s. lastModified s p = Some t
            \<longrightarrow> lastModified (snd (fn q (Inr m) s)) p = Some t"
  proof (clarify)
    fix q m and s :: watcher
    assume qm: "(q, m) \<in> set es" and s: "lastModified s p = Some t"
    from qm assms(2) have "q = p \<and> \<not> IsDir m \<longrightarrow> ModTime m = t"
      by (auto simp: set_file_times)
    from detector_keep_step[OF assms(1) s this]
    show "lastModified (snd (fn q (Inr m) s)) p = Some t" .
  qed
  from effects_invariant[of es "\<lambda>s. lastModified s p = Some t" fn, OF this assms(3)]
  show ?thesis .
qed

lemma detector_mono:
  assumes "detector p fn" and "filesChanged w"
  shows "filesChanged (effects fn es w)"
proof -
  have "\<forall>(q, m) \<in> set es. \<forall>s. filesChanged s \<longrightarrow> filesChanged (snd (fn q (Inr m) s))"
    using detectorD1[OF assms(1)] by blast
  from effects_invariant[of es filesChanged fn, OF this assms(2)] show ?thesis .
qed

lemma detector_quiet:
  assumes "detector p fn"
    and "\<forall>(q, n) \<in> set es. \<not> IsDir n \<longrightarrow> \<not> is_changed w q (ModTime n)"
  shows "effects fn es w = w"
  using assms(2)
proof (induction es)
  case Nil
  then show ?case by simp
next
  case (Cons e es)
  obtain q m where e: "e = (q, m)" by force
  from Cons.prems e have "IsDir m \<or> \<not> is_changed w q (ModTime m)" by auto
  then have "snd (fn q (Inr m) w) = w" by (rule detectorD4[OF assms(1)])
  moreover from Cons.prems have "\<forall>(q, n) \<in> set es. \<not> IsDir n \<longrightarrow> \<not> is_changed w q (ModTime n)"
    by auto
  ultimately show ?case using Cons.IH e by simp
qed

text \<open>A change found at an entry of the walk is recorded when the walk ends.\<close>

lemma detector_Q_step:
  assumes det: "detector p fn"
    and tm: "q = p \<and> \<not> IsDir m \<longrightarrow> ModTime m = t"
    and Q: "lastModified s p = l \<or> (lastModified s p = Some t \<and> filesChanged s)"
  shows "lastModified (snd (fn q (Inr m) s)) p = l
         \<or> (lastModified (snd (fn q (Inr m) s)) p = Some t \<and> filesChanged (snd (fn q (Inr m) s)))"
  using Q
proof
  assume a: "lastModified s p = l"
  show ?thesis
  proof (cases "q = p \<and> \<not> IsDir m")
    case True
    with tm have mt: "ModTime m = t" and qp: "q = p" by simp_all
    from detectorD3[OF det, of m s]
    have "lastModified (snd (fn p (Inr m) s)) p = l
          \<or> (lastModified (snd (fn p (Inr m) s)) p = Some t \<and> filesChanged (snd (fn p (Inr m) s)))"
      by (simp add: a mt)
    then show ?thesis by (simp add: qp)
  next
    case False
    then have "q \<noteq> p \<or> IsDir m" by blast
    from detectorD2[OF det this, of s] have "lastModified (snd (fn q (Inr m) s)) p = l"
      by (simp add: a)
    then show ?thesis by (rule disjI1)
  qed
next
  assume a: "lastModified s p = Some t \<and> filesChanged s"
  have "lastModified (snd (fn q (Inr m) s)) p = Some t"
    by (rule detector_keep_step[OF det conjunct1[OF a] tm])
  moreover have "filesChanged (snd (fn q (Inr m) s))"
    by (rule detectorD1[OF det conjunct2[OF a]])
  ultimately show ?thesis by blast
qed

lemma file_times_append:
  "file_times (xs @ ys) p = file_times xs p @ file_times ys p"
  by (simp add: file_times_def)

lemma detector_records:
  assumes det: "detector p fn"
    and hit: "\<forall>w. is_changed w p t \<longrightarrow>
                lastModified (snd (fn p (Inr (File d t)) w)) p = Some t
                \<and> filesChanged (snd (fn p (Inr (File d t)) w))"
    and mem: "(p, File d t) \<in> set es"
    and times: "\<forall>t' \<in> set (file_times es p). t' = t"
    and chg: "is_changed w p t"
  shows "lastModified (effects fn es w) p = Some t \<and> filesChanged (effects fn es w)"
proof -
  from split_list[OF mem] obtain xs ys where es: "es = xs @ (p, File d t) # ys"
    by blast
  have ft: "file_times es p = file_times xs p @ t # file_times ys p"
    unfolding es by (simp add: file_times_append file_times_Cons)
  have tx: "\<forall>t' \<in> set (file_times xs p). t' = t"
    using times unfolding ft by simp
  have ty: "\<forall>t' \<in> set (file_times ys p). t' = t"
    using times unfolding ft by simp
  let ?l = "lastModified w p"
  let ?Q = "\<lambda>s :: watcher. lastModified s p = ?l \<or> (lastModified s p = Some t \<and> filesChanged s)"
  have stepQ: "\<forall>(q, m) \<in> set xs. \<forall>s. ?Q s \<longrightarrow> ?Q (snd (fn q (Inr m) s))"
  proof (rule ballI)
    fix x assume x: "x \<in> set xs"
    obtain q m where xe: "x = (q, m)" by force
    have "ModTime m \<in> set (file_times xs p)" if "q = p \<and> \<not> IsDir m"
      using that x unfolding set_file_times xe by blast
    with tx have tm: "q = p \<and> \<not> IsDir m \<longrightarrow> ModTime m = t" by blast
    have "\<forall>s. ?Q s \<longrightarrow> ?Q (snd (fn q (Inr m) s))"
      using detector_Q_step[OF det tm] by blast
    then show "case x of (q, m) \<Rightarrow> \<forall>s. ?Q s \<longrightarrow> ?Q (snd (fn q (Inr m) s))"
      unfolding xe by (simp only: prod.case)
  qed
  have q0: "?Q w" by simp
  have qx: "?Q (effects fn xs w)"
    by (rule effects_invariant[of xs ?Q fn w, OF stepQ q0])
  let ?a = "effects fn xs w"
  let ?b = "snd (fn p (Inr (File d t)) ?a)"
  have b: "lastModified ?b p = Some t \<and> filesChanged ?b"
    using qx
  proof
    assume "lastModified ?a p = lastModified w p"
    from is_changed_cong[OF this, of t] chg have "is_changed ?a p t" by blast
    with hit show ?thesis by blast
  next
    assume a: "lastModified ?a p = Some t \<and> filesChanged ?a"
    have "lastModified ?b p = Some t"
      by (rule detector_keep_step[OF det conjunct1[OF a]]) simp
    moreover have "filesChanged ?b" by (rule detectorD1[OF det conjunct2[OF a]])
    ultimately show ?thesis by blast
  qed
  have e: "effects fn es w = effects fn ys ?b" unfolding es by simp
  have "lastModified (effects fn ys ?b) p = Some t"
    by (rule detector_keep[OF det ty conjunct1[OF b]])
  moreover have "filesChanged (effects fn ys ?b)"
    by (rule detector_mono[OF det conjunct2[OF b]])
  ultimately show ?thesis unfolding e by blast
qed

lemma input_visit_hit:
  assumes "\<not> hidden p" and "\<not> strings_HasSuffix p ''.tmp''"
  shows "\<forall>w. is_changed w p t \<longrightarrow>
                lastModified (snd (input_visit p (Inr (File d t)) w)) p = Some t
                \<and> filesChanged (snd (input_visit p (Inr (File d t)) w))"
  using assms by (simp add: input_visit_def hidden_def mark_changed_def)

lemma template_visit_hit:
  assumes "\<not> hidden p"
  shows "\<forall>w. is_changed w p t \<longrightarrow>
                lastModified (snd (template_visit p (Inr (File d t)) w)) p = Some t
                \<and> filesChanged (snd (template_visit p (Inr (File d t)) w))"
  using assms by (simp add: template_visit_def hidden_def mark_changed_def)

lemma init_keep:
  assumes "\<forall>t' \<in> set (file_times es p). t' = t" and "lm p = Some t"
  shows "effects init_visit es lm p = Some t"
  using assms by (auto simp: effects_init_exact) 

lemma has_time_parts:
  assumes "has_time cfg it tt p t"
  shows "\<forall>t' \<in> set (file_times (walk_entries hidden (InputDir cfg) it) p). t' = t"
    and "\<forall>t' \<in> set (file_times (walk_entries hidden (TemplatesDir cfg) tt) p). t' = t"
    and "\<forall>t' \<in> set (file_times (scanned cfg it tt) p). t' = t"
  using assms walk_entries_subset[of hidden "InputDir cfg" it]
    walk_entries_subset[of hidden "TemplatesDir cfg" tt]
  by (auto simp: has_time_def scanned_def set_file_times)

lemma tick_no_rebuild:
  "\<not> rebuild_due now (snd (detect cfg (st, w))) \<Longrightarrow>
     tick c cfg now after (st, w) = Some (detect cfg (st, w))"
  by (cases "detect cfg (st, w)") (simp add: tick_def)

lemma detect_keep:
  assumes "has_time cfg (in_tree st) (tmpl_tree st) p t" and "lastModified w p = Some t"
  shows "lastModified (snd (detect cfg (st, w))) p = Some t"
proof -
  let ?w0 = "w\<lparr>filesChanged := False, changedSource := [], changedFile := []\<rparr>"
  let ?w1 = "effects input_visit (walk_entries hidden (InputDir cfg) (in_tree st)) ?w0"
  have a: "lastModified ?w1 p = Some t"
    by (rule detector_keep[OF detector_input has_time_parts(1)[OF assms(1)]]) (simp add: assms(2))
  have b: "lastModified (effects template_visit (walk_entries hidden (TemplatesDir cfg) (tmpl_tree st)) ?w1) p = Some t"
    by (rule detector_keep[OF detector_template has_time_parts(2)[OF assms(1)] a])
  from a b show ?thesis by (simp add: detect_watcher Let_def)
qed

lemma tick_keep:
  assumes "has_time cfg (in_tree st) (tmpl_tree st) p t" and "lastModified w p = Some t"
    and "tick c cfg now after (st, w) = Some (st', w')"
  shows "lastModified w' p = Some t"
proof (cases "rebuild_due now (snd (detect cfg (st, w)))")
  case True
  from tick_rebuild[OF assms(3) True]
  have "lastModified w' = effects init_visit (scanned cfg (in_tree st) (tmpl_tree st))
                 (lastModified (snd (detect cfg (st, w))))" by simp
  moreover have "effects init_visit (scanned cfg (in_tree st) (tmpl_tree st))
                 (lastModified (snd (detect cfg (st, w)))) p = Some t"
    using has_time_parts(3)[OF assms(1)] detect_keep[OF assms(1,2)] by (rule init_keep)
  ultimately show ?thesis by simp
next
  case False
  from tick_no_rebuild[OF False, of c after] assms(3) have "w' = snd (detect cfg (st, w))"
    by (metis option.inject snd_conv)
  with detect_keep[OF assms(1,2)] show ?thesis by simp
qed

lemma run_ticks_keep:
  assumes "\<forall>e \<in> set envs. has_time cfg (env_input e) (env_templates e) p t"
    and "lastModified (snd s) p = Some t"
    and "run_ticks c cfg envs s = Some s'"
  shows "lastModified (snd s') p = Some t"
  using assms
proof (induction envs arbitrary: s)
  case Nil
  then show ?case by simp
next
  case (Cons e envs)
  let ?st = "(fst s)\<lparr>in_tree := env_input e, tmpl_tree := env_templates e\<rparr>"
  from Cons.prems(3) obtain s1 where t: "tick c cfg (env_now e) (env_after e) (?st, snd s) = Some s1"
    and r: "run_ticks c cfg envs s1 = Some s'"
    by (auto split: option.splits)
  from Cons.prems(1) have h: "has_time cfg (in_tree ?st) (tmpl_tree ?st) p t" by simp
  from tick_keep[OF h Cons.prems(2), of c "env_now e" "env_after e" "fst s1" "snd s1"] t
  have "lastModified (snd s1) p = Some t" by simp
  from Cons.IH[OF _ this r] Cons.prems(1) show ?case by simp
qed

lemma detector_lastRebuild:
  assumes "detector p fn"
  shows "lastRebuild (effects fn es w) = lastRebuild w"
proof -
  have "\<forall>(q, m) \<in> set es. \<forall>s. lastRebuild s = lastRebuild w
          \<longrightarrow> lastRebuild (snd (fn q (Inr m) s)) = lastRebuild w"
    using detectorD6[OF assms] by simp
  from effects_invariant[of es "\<lambda>s. lastRebuild s = lastRebuild w" fn w, OF this]
  show ?thesis by simp
qed

lemma detector_nothing_found:
  assumes "detector p fn" and "\<not> filesChanged (effects fn es w)"
  shows "effects fn es w = w"
  using assms(2)
proof (induction es arbitrary: w)
  case Nil
  then show ?case by simp
next
  case (Cons e es)
  obtain q m where e: "e = (q, m)" by force
  let ?w = "snd (fn q (Inr m) w)"
  from Cons.prems have n: "\<not> filesChanged (effects fn es ?w)" by (simp add: e)
  have "\<not> filesChanged ?w"
  proof
    assume "filesChanged ?w"
    from detector_mono[OF assms(1) this, of es] n show False by simp
  qed
  with detectorD5[OF assms(1), of q "Inr m" w] have "?w = w" by simp
  with Cons.IH[OF n] show ?case by (simp add: e)
qed

text \<open>The detection of one tick, when a change at \<open>p\<close> is found by one of the walks.\<close>

lemma detect_records:
  assumes seen: "((p, File d t) \<in> set (walk_entries hidden (InputDir cfg) (in_tree st))
                  \<and> \<not> strings_HasSuffix p ''.tmp'')
                 \<or> ((p, File d t) \<in> set (walk_entries hidden (TemplatesDir cfg) (tmpl_tree st))
                     \<and> \<not> filesChanged (snd (filepath_Walk (InputDir cfg) (in_tree st) input_visit
                            (w\<lparr>filesChanged := False, changedSource := [], changedFile := []\<rparr>))))"
    and nh: "\<not> hidden p"
    and chg: "is_changed w p t"
    and tm: "has_time cfg (in_tree st) (tmpl_tree st) p t"
  shows "lastModified (snd (detect cfg (st, w))) p = Some t
         \<and> filesChanged (snd (detect cfg (st, w)))
         \<and> lastRebuild (snd (detect cfg (st, w))) = lastRebuild w"
proof -
  let ?w0 = "w\<lparr>filesChanged := False, changedSource := [], changedFile := []\<rparr>"
  let ?ei = "walk_entries hidden (InputDir cfg) (in_tree st)"
  let ?et = "walk_entries hidden (TemplatesDir cfg) (tmpl_tree st)"
  let ?w1 = "effects input_visit ?ei ?w0"
  let ?w2 = "effects template_visit ?et ?w1"
  have chg0: "is_changed ?w0 p t" using chg by (simp add: is_changed_def)
  have lr: "lastRebuild (snd (detect cfg (st, w))) = lastRebuild w"
    by (simp add: detect_watcher Let_def detector_lastRebuild[OF detector_input]
          detector_lastRebuild[OF detector_template])
  from seen show ?thesis
  proof
    assume a: "(p, File d t) \<in> set ?ei \<and> \<not> strings_HasSuffix p ''.tmp''"
    from detector_records[OF detector_input input_visit_hit[OF nh conjunct2[OF a]]
        conjunct1[OF a] has_time_parts(1)[OF tm] chg0]
    have "lastModified ?w1 p = Some t \<and> filesChanged ?w1" .
    then show ?thesis using lr by (simp add: detect_watcher Let_def)
  next
    assume a: "(p, File d t) \<in> set ?et
                 \<and> \<not> filesChanged (snd (filepath_Walk (InputDir cfg) (in_tree st) input_visit ?w0))"
    then have nf: "\<not> filesChanged ?w1" by (simp add: Walk_input)
    from detector_nothing_found[OF detector_input nf] have w1: "?w1 = ?w0" .
    from detector_records[OF detector_template template_visit_hit[OF nh]
        conjunct1[OF a] has_time_parts(2)[OF tm] chg0]
    have "lastModified (effects template_visit ?et ?w0) p = Some t
          \<and> filesChanged (effects template_visit ?et ?w0)" .
    then show ?thesis using lr nf w1 by (simp add: detect_watcher Let_def)
  qed
qed

text \<open>A tick at which nothing is new or newer changes nothing but the three tick variables.\<close>

lemma detect_quiet:
  assumes rec: "lastModified w p = Some t"
    and tm: "has_time cfg (in_tree st) (tmpl_tree st) p t"
    and oth: "others_unchanged cfg (in_tree st) (tmpl_tree st) w p"
  shows "snd (detect cfg (st, w))
           = w\<lparr>filesChanged := False, changedSource := [], changedFile := []\<rparr>"
proof -
  let ?w0 = "w\<lparr>filesChanged := False, changedSource := [], changedFile := []\<rparr>"
  let ?es = "scanned cfg (in_tree st) (tmpl_tree st)"
  have all: "\<forall>(q, n) \<in> set ?es. \<not> IsDir n \<longrightarrow> \<not> is_changed ?w0 q (ModTime n)"
  proof (rule ballI)
    fix x assume x: "x \<in> set ?es"
    obtain q n where xe: "x = (q, n)" by force
    have "\<not> is_changed ?w0 q (ModTime n)" if f: "\<not> IsDir n"
    proof (cases "q = p")
      case True
      with x f have "ModTime n \<in> set (file_times ?es p)"
        unfolding set_file_times xe by blast
      with tm have "ModTime n = t" by (simp add: has_time_def)
      with rec True show ?thesis by (simp add: is_changed_def)
    next
      case False
      with oth x f have "\<not> is_changed w q (ModTime n)"
        unfolding others_unchanged_def xe by blast
      then show ?thesis by (simp add: is_changed_def)
    qed
    then show "case x of (q, n) \<Rightarrow> \<not> IsDir n \<longrightarrow> \<not> is_changed ?w0 q (ModTime n)"
      unfolding xe by simp
  qed
  from all walk_entries_subset[of hidden "InputDir cfg" "in_tree st"]
  have i: "\<forall>(q, n) \<in> set (walk_entries hidden (InputDir cfg) (in_tree st)).
             \<not> IsDir n \<longrightarrow> \<not> is_changed ?w0 q (ModTime n)"
    unfolding scanned_def by auto
  from all walk_entries_subset[of hidden "TemplatesDir cfg" "tmpl_tree st"]
  have tt: "\<forall>(q, n) \<in> set (walk_entries hidden (TemplatesDir cfg) (tmpl_tree st)).
             \<not> IsDir n \<longrightarrow> \<not> is_changed ?w0 q (ModTime n)"
    unfolding scanned_def by auto
  show ?thesis
    by (simp add: detect_watcher Let_def detector_quiet[OF detector_input i]
          detector_quiet[OF detector_template tt])
qed














section \<open>Paths of entries\<close>

text \<open>
  The path functions on the paths a walk builds: a root that is a single name, followed
  by entry names.
\<close>

lemma path_of_Nil [simp]: "path_of r [] = r"
  by (simp add: path_of_def)


lemma path_of_Cons: "path_of r (c # cs) = path_of (r @ CHR ''/'' # c) cs"
  by (simp add: path_of_def)




































section \<open>What the walk leaves at \<open>output/robots.txt\<close>\<close>








































section \<open>C1: output paths of pages\<close>

text \<open>
  C1. The claim: a markdown file named \<open>index.<ext>\<close> for any recognised extension,
  in any letter case, is written to \<open>index.html\<close> in the same directory, and any
  other markdown file \<open>name.<ext>\<close> to \<open>name/index.html\<close>. The program compares the
  base name with the literal \<open>index.md\<close> only: \<open>input/blog/index.markdown\<close>, which
  \<open>isMarkdownFile\<close> recognises, is mirrored to \<open>output/blog/index.markdown\<close> and
  written to \<open>output/blog/index/index.html\<close>, not to \<open>output/blog/index.html\<close>. The
  two examples of the claim come out as stated.
\<close>

theorem index_markdown_not_in_place:
  "isMarkdownFile ''input/blog/index.markdown''
   \<and> mirror_path default_Configuration ''input/blog/index.markdown''
       = ''output/blog/index.markdown''
   \<and> outputHTMLPath ''output/blog/index.markdown'' ''input/blog/index.markdown''
       = ''output/blog/index/index.html''
   \<and> outputHTMLPath ''output/blog/post.md'' ''input/blog/post.md''
       = ''output/blog/post/index.html''
   \<and> outputHTMLPath ''output/blog/index.md'' ''input/blog/index.md''
       = ''output/blog/index.html''"
  by code_simp

section \<open>C2: hidden entries in the build\<close>




section \<open>C3: texts without front matter\<close>

text \<open>
  C3 as stated: a text that begins with the line \<open>---\<close> but has no closing \<open>---\<close>
  line comes back whole, with empty metadata. It fails: \<open>parseFrontMatter\<close> searches
  for the four bytes \<open>---\<close>, newline, anywhere after the opening line, also at the end of a
  longer line. In the text below no line after the first consists of \<open>---\<close>, yet the
  block \<open>title: a\<close> is decoded and only \<open>body\<close> is returned.
\<close>

theorem dashes_inside_a_line_close_the_block:
  "strings_HasPrefix text_inline_dashes ''---\<newline>''
   \<and> \<not> spec_closing_delimiter_line text_inline_dashes
   \<and> parseFrontMatter demo text_inline_dashes
       = (empty_FrontMatter\<lparr>Title := ''a''\<rparr>, ''body'', [])"
  by code_simp

text \<open>
  C3 as amended: for every text that does not begin with \<open>---\<close> and a newline, and
  for every text that begins so but in which the bytes \<open>---\<close>, newline, do not occur again
  after the first four bytes, the splitter returns the empty front matter and the whole
  text, and prints nothing.
\<close>

theorem no_front_matter_returns_whole_text:
  assumes "\<not> strings_HasPrefix content ''---\<newline>''
           \<or> (strings_HasPrefix content ''---\<newline>''
               \<and> \<not> (\<exists>u v. drop 4 content = u @ ''---\<newline>'' @ v))"
  shows "parseFrontMatter c content = (empty_FrontMatter, content, [])"
  using assms by (auto simp: parseFrontMatter_def Let_def Index_none_iff)

theorem no_front_matter_returns_whole_text_witness:
  "strings_HasPrefix text_unterminated ''---\<newline>''
   \<and> \<not> (\<exists>u v. drop 4 text_unterminated = u @ ''---\<newline>'' @ v)
   \<and> parseFrontMatter demo text_unterminated = (empty_FrontMatter, text_unterminated, [])"
proof -
  have h1: "strings_HasPrefix text_unterminated ''---\<newline>''"
    by code_simp
  have "strings_Index (drop 4 text_unterminated) ''---\<newline>'' = - 1"
    by code_simp
  with Index_none_iff[of "drop 4 text_unterminated" "''---\<newline>''"]
  have h2: "\<not> (\<exists>u v. drop 4 text_unterminated = u @ ''---\<newline>'' @ v)"
    by blast
  from no_front_matter_returns_whole_text[of text_unterminated demo] h1 h2
  show ?thesis by blast
qed

section \<open>C4: the fallback page\<close>



section \<open>C6: missing directories\<close>

text \<open>
  C6. When the input directory or the templates directory does not exist, \<open>build\<close>
  prints one error line and returns: the output tree, and the two other trees, are as
  they were.
\<close>

theorem build_aborts_when_a_directory_is_missing:
  assumes "in_tree st = None \<or> tmpl_tree st = None"
  shows "\<exists>line st'. build c cfg st = Some st'
           \<and> strings_HasPrefix line ''Error: ''
           \<and> console st' = console st @ [line]
           \<and> out_tree st' = out_tree st
           \<and> in_tree st' = in_tree st
           \<and> tmpl_tree st' = tmpl_tree st"
proof (cases "in_tree st = None")
  case True
  then show ?thesis
    by (intro exI[of _ "''Error: Input directory does not exist: '' @ InputDir cfg"])
       (simp add: build_def in_node_root print_line_def strings_HasPrefix_def)
next
  case False
  with assms have "tmpl_tree st = None" by simp
  with False show ?thesis
    by (intro exI[of _ "''Error: Templates directory does not exist: '' @ TemplatesDir cfg"])
       (auto simp: build_def in_node_root tmpl_node_root print_line_def strings_HasPrefix_def)
qed

theorem build_aborts_when_a_directory_is_missing_witness:
  "in_tree st_no_input = None
   \<and> (\<exists>line st'. build demo default_Configuration st_no_input = Some st'
           \<and> strings_HasPrefix line ''Error: ''
           \<and> console st' = console st_no_input @ [line]
           \<and> out_tree st' = Some (Dir [(''old.html'', File ''kept'' 0)]))"
proof -
  have h: "in_tree st_no_input = None" by (simp add: st_no_input_def)
  have o: "out_tree st_no_input = Some (Dir [(''old.html'', File ''kept'' 0)])"
    by (simp add: st_no_input_def)
  from build_aborts_when_a_directory_is_missing[of st_no_input demo default_Configuration] h o
  show ?thesis by auto
qed

section \<open>C7: a front-matter block that does not decode\<close>

text \<open>
  C7 as stated: when the block fails to decode, the metadata is empty and the body is
  everything after the opening delimiter. It fails: the body is what follows the closing
  delimiter, as on success, and the metadata is the structure as the decoder left it. In
  the text below the stand-in decoder sets the title and then fails at \<open>tags: 3\<close>.
\<close>

theorem decode_failure_body_is_not_the_rest_after_the_opening:
  "parseFrontMatter demo text_bad_yaml
     = (empty_FrontMatter\<lparr>Title := ''Hi''\<rparr>, ''# Hello'',
        [''Error: Error parsing front matter: yaml: cannot decode''])
   \<and> drop 4 text_bad_yaml = ''title: Hi\<newline>tags: 3\<newline>---\<newline># Hello''
   \<and> fst (snd (parseFrontMatter demo text_bad_yaml)) \<noteq> drop 4 text_bad_yaml"
  by code_simp

text \<open>
  C7 as amended: when the block between the delimiters fails to decode, the failure is
  printed, the metadata returned is the initially empty front matter as the decoder left
  it, and the body is everything after the closing delimiter: the text is the opening
  delimiter, the block, the closing delimiter and the body.
\<close>

theorem decode_failure_is_logged_and_body_follows_closing_delimiter:
  assumes "strings_HasPrefix content ''---\<newline>''"
    and "strings_Index (drop 4 content) ''---\<newline>'' = i" and "i \<noteq> - 1"
    and "yaml_Unmarshal c (take (nat i) (drop 4 content)) empty_FrontMatter = (Some e, fm)"
  shows "parseFrontMatter c content
           = (fm, drop (nat (i + 8)) content, [''Error: Error parsing front matter: '' @ e])
         \<and> content = ''---\<newline>'' @ take (nat i) (drop 4 content) @ ''---\<newline>''
                       @ drop (nat (i + 8)) content"
proof -
  from Index_found[OF assms(2,3)] have i0: "0 \<le> i"
    and split: "drop 4 content
                  = take (nat i) (drop 4 content) @ ''---\<newline>''
                      @ drop (nat i + 4) (drop 4 content)"
    by auto
  have n: "nat (i + 8) = nat i + 4 + 4" using i0 by simp
  from assms(1) have "content = ''---\<newline>'' @ drop 4 content"
    by (auto simp: HasPrefix_iff)
  with split have "content = ''---\<newline>'' @ take (nat i) (drop 4 content) @ ''---\<newline>''
                      @ drop (nat i + 4) (drop 4 content)"
    by metis
  moreover have "drop (nat i + 4) (drop 4 content) = drop (nat (i + 8)) content"
    by (simp add: n add.commute)
  ultimately have c: "content = ''---\<newline>'' @ take (nat i) (drop 4 content) @ ''---\<newline>''
                       @ drop (nat (i + 8)) content" by simp
  have "parseFrontMatter c content
           = (fm, drop (nat (i + 8)) content, [''Error: Error parsing front matter: '' @ e])"
    using assms by (simp add: parseFrontMatter_def Let_def)
  with c show ?thesis by blast
qed

theorem decode_failure_is_logged_and_body_follows_closing_delimiter_witness:
  "strings_HasPrefix text_bad_yaml ''---\<newline>''
   \<and> strings_Index (drop 4 text_bad_yaml) ''---\<newline>'' = 18
   \<and> yaml_Unmarshal demo (take 18 (drop 4 text_bad_yaml)) empty_FrontMatter
       = (Some ''yaml: cannot decode'', empty_FrontMatter\<lparr>Title := ''Hi''\<rparr>)
   \<and> parseFrontMatter demo text_bad_yaml
       = (empty_FrontMatter\<lparr>Title := ''Hi''\<rparr>, drop 26 text_bad_yaml,
          [''Error: Error parsing front matter: yaml: cannot decode''])
   \<and> text_bad_yaml = ''---\<newline>'' @ take 18 (drop 4 text_bad_yaml) @ ''---\<newline>''
                       @ drop 26 text_bad_yaml"
proof -
  have h1: "strings_HasPrefix text_bad_yaml ''---\<newline>''"
    by code_simp
  have h2: "strings_Index (drop 4 text_bad_yaml) ''---\<newline>'' = 18"
    by code_simp
  have h3: "(18::int) \<noteq> - 1" by simp
  have h4: "yaml_Unmarshal demo (take (nat 18) (drop 4 text_bad_yaml)) empty_FrontMatter
       = (Some ''yaml: cannot decode'', empty_FrontMatter\<lparr>Title := ''Hi''\<rparr>)"
    by code_simp
  from decode_failure_is_logged_and_body_follows_closing_delimiter[OF h1 h2 h3 h4] h1 h2 h4
  show ?thesis by simp
qed

section \<open>C5: robots.txt\<close>




section \<open>C8: what the watcher skips\<close>

text \<open>
  C8 as stated: on every tick both trees are walked, and in both a change to a hidden
  file or to a \<open>.tmp\<close> file is never detected. It fails twice. With the recorded
  times of \<open>w_old\<close>, the newer \<open>templates/page.html.tmp\<close> of \<open>st_watch\<close> is
  detected and recorded (the newer \<open>input/draft.tmp\<close> and \<open>input/.git/HEAD\<close> are
  not); and in \<open>st_both\<close>, where an input file and a template are both newer, only
  the input file is seen: the templates tree is not walked on that tick.
\<close>

theorem template_tmp_file_is_detected:
  "filesChanged (snd (detect default_Configuration (st_watch, w_old)))
   \<and> changedFile (snd (detect default_Configuration (st_watch, w_old)))
       = ''templates/page.html.tmp''
   \<and> lastModified (snd (detect default_Configuration (st_watch, w_old)))
         ''templates/page.html.tmp'' = Some 50
   \<and> lastModified (snd (detect default_Configuration (st_watch, w_old)))
         ''input/draft.tmp'' = Some 10
   \<and> lastModified (snd (detect default_Configuration (st_watch, w_old)))
         ''input/.git/HEAD'' = Some 10
   \<and> changedFile (snd (detect default_Configuration (st_both, w_old))) = ''input/a.md''
   \<and> lastModified (snd (detect default_Configuration (st_both, w_old)))
         ''templates/default.html'' = Some 10"
  by code_simp

text \<open>
  C8 as amended: on every tick the watcher walks the input tree, and the templates tree
  when the input walk has found no change. In both walks an entry whose base name starts
  with \<open>.\<close> is skipped entirely, a directory together with everything below it: the
  walk goes on as if the entry were not listed. In the input walk a file whose path ends
  in \<open>.tmp\<close> is skipped in the same way.
\<close>

theorem watcher_skips_hidden_entries_and_input_tmp_files:
  assumes "strings_HasPrefix (filepath_Base (filepath_Join [dir, name])) ''.''"
    and "strings_HasSuffix (filepath_Join [dir, tname]) ''.tmp''"
    and "filesChanged (snd (filepath_Walk (InputDir cfg) (in_tree st) input_visit
            (w\<lparr>filesChanged := False, changedSource := [], changedFile := []\<rparr>)))"
  shows "walk_names dir ((name, node) # rest) input_visit w = walk_names dir rest input_visit w
       \<and> walk_names dir ((name, node) # rest) template_visit w
           = walk_names dir rest template_visit w
       \<and> walk_names dir ((tname, File d t) # rest) input_visit w
           = walk_names dir rest input_visit w
       \<and> snd (detect cfg (st, w))
           = snd (filepath_Walk (InputDir cfg) (in_tree st) input_visit
                (w\<lparr>filesChanged := False, changedSource := [], changedFile := []\<rparr>))"
proof -
  let ?p = "filepath_Join [dir, name]"
  have a: "walk ?p node input_visit w = (if IsDir node then SkipDir else Continue, w)"
    using assms(1) by (cases node) (simp_all add: input_visit_def)
  have b: "walk ?p node template_visit w = (if IsDir node then SkipDir else Continue, w)"
    using assms(1) by (cases node) (simp_all add: template_visit_def)
  have c: "walk (filepath_Join [dir, tname]) (File d t) input_visit w = (Continue, w)"
    using assms(2) by (simp add: input_visit_def)
  have e: "snd (detect cfg (st, w))
           = snd (filepath_Walk (InputDir cfg) (in_tree st) input_visit
                (w\<lparr>filesChanged := False, changedSource := [], changedFile := []\<rparr>))"
    using assms(3) by (simp add: detect_watcher Walk_input Let_def)
  from a b c e show ?thesis by simp
qed

theorem watcher_skips_hidden_entries_and_input_tmp_files_witness:
  "strings_HasPrefix (filepath_Base (filepath_Join [''input'', ''.git''])) ''.''
   \<and> strings_HasSuffix (filepath_Join [''input'', ''draft.tmp'']) ''.tmp''
   \<and> filesChanged (snd (filepath_Walk (InputDir default_Configuration) (in_tree st_both)
          input_visit (w_old\<lparr>filesChanged := False, changedSource := [], changedFile := []\<rparr>)))
   \<and> walk_names ''input'' [(''.git'', Dir [(''HEAD'', File ''ref'' 50)]), (''a.md'', File ''hello'' 10)]
         input_visit w_old
       = walk_names ''input'' [(''a.md'', File ''hello'' 10)] input_visit w_old
   \<and> walk_names ''input'' [(''draft.tmp'', File ''x'' 50)] input_visit w_old
       = walk_names ''input'' [] input_visit w_old
   \<and> changedFile (snd (detect default_Configuration (st_both, w_old))) = ''input/a.md''"
proof -
  have h1: "strings_HasPrefix (filepath_Base (filepath_Join [''input'', ''.git''])) ''.''"
    by code_simp
  have h2: "strings_HasSuffix (filepath_Join [''input'', ''draft.tmp'']) ''.tmp''"
    by code_simp
  have h3: "filesChanged (snd (filepath_Walk (InputDir default_Configuration) (in_tree st_both)
          input_visit (w_old\<lparr>filesChanged := False, changedSource := [], changedFile := []\<rparr>)))"
    by code_simp
  have e: "changedFile (snd (detect default_Configuration (st_both, w_old))) = ''input/a.md''"
    by code_simp
  from watcher_skips_hidden_entries_and_input_tmp_files[OF h1 h2 h3,
      where node = "Dir [(''HEAD'', File ''ref'' 50)]" and rest = "[(''a.md'', File ''hello'' 10)]"]
  have a: "walk_names ''input'' [(''.git'', Dir [(''HEAD'', File ''ref'' 50)]), (''a.md'', File ''hello'' 10)]
         input_visit w_old
       = walk_names ''input'' [(''a.md'', File ''hello'' 10)] input_visit w_old" by blast
  from watcher_skips_hidden_entries_and_input_tmp_files[OF h1 h2 h3,
      where rest = "[]" and d = "''x''" and t = 50]
  have b: "walk_names ''input'' [(''draft.tmp'', File ''x'' 50)] input_visit w_old
       = walk_names ''input'' [] input_visit w_old" by blast
  from h1 h2 h3 a b e show ?thesis by blast
qed

section \<open>C9: the map after a rebuild\<close>

text \<open>
  C9 as stated: after a rebuild the map is discarded and rebuilt, so no entry for a path
  that has since been deleted survives. It fails: the two calls of
  \<open>initializeFileMap\<close> write into the map that is there. In the tick below, which
  rebuilds, the entry for \<open>input/gone.md\<close>, a path the input tree does not hold, is
  still there afterwards.
\<close>

theorem stale_entry_survives_rebuild:
  "tick demo default_Configuration 2000000000 2000000100 (st_both, w_old) \<noteq> None
   \<and> lastRebuild (snd (the (tick demo default_Configuration 2000000000 2000000100
                               (st_both, w_old)))) = 2000000100
   \<and> in_node default_Configuration st_both ''input/gone.md'' = None
   \<and> lastModified w_old ''input/gone.md'' = Some 5
   \<and> lastModified (snd (the (tick demo default_Configuration 2000000000 2000000100
                                (st_both, w_old)))) ''input/gone.md'' = Some 5"
  by code_simp

text \<open>
  C9 as amended: after a rebuild triggered by the watcher, \<open>lastRebuild\<close> is the
  time after the build, and the map is the one from before the tick updated by a fresh
  scan of both trees: every path the scan finds as a file, hidden or not, has the
  modification time found for it, and every other entry is as it was before the tick.
\<close>

theorem rebuild_updates_the_map_and_keeps_stale_entries:
  assumes "tick c cfg now after (st, w) = Some (st', w')"
    and "rebuild_due now (snd (detect cfg (st, w)))"
  shows "lastRebuild w' = after
         \<and> (\<forall>p. lastModified w' p
                  = (if file_times (scanned cfg (in_tree st) (tmpl_tree st)) p = []
                     then lastModified w p
                     else Some (last (file_times (scanned cfg (in_tree st) (tmpl_tree st)) p))))"
proof -
  let ?es = "scanned cfg (in_tree st) (tmpl_tree st)"
  from tick_rebuild[OF assms] have r: "lastRebuild w' = after"
    and m: "lastModified w' = effects init_visit ?es (lastModified (snd (detect cfg (st, w))))"
    by auto
  have "lastModified w' p
          = (if file_times ?es p = [] then lastModified w p else Some (last (file_times ?es p)))"
    for p
  proof (cases "file_times ?es p = []")
    case True
    then have "\<forall>n. (p, n) \<in> set ?es \<longrightarrow> IsDir n" by (simp only: file_times_empty_iff)
    from detect_untouched[OF this] True show ?thesis by (simp add: m effects_init_exact)
  next
    case False
    then show ?thesis by (simp add: m effects_init_exact)
  qed
  with r show ?thesis by blast
qed

theorem rebuild_updates_the_map_and_keeps_stale_entries_witness:
  "rebuild_due 2000000000 (snd (detect default_Configuration (st_both, w_old)))
   \<and> tick demo default_Configuration 2000000000 2000000100 (st_both, w_old) \<noteq> None
   \<and> lastRebuild (snd (the (tick demo default_Configuration 2000000000 2000000100
                               (st_both, w_old)))) = 2000000100
   \<and> file_times (scanned default_Configuration (in_tree st_both) (tmpl_tree st_both))
        ''input/gone.md'' = []
   \<and> lastModified (snd (the (tick demo default_Configuration 2000000000 2000000100
                                (st_both, w_old)))) ''input/gone.md''
       = lastModified w_old ''input/gone.md''
   \<and> file_times (scanned default_Configuration (in_tree st_both) (tmpl_tree st_both))
        ''templates/default.html'' = [50]
   \<and> lastModified (snd (the (tick demo default_Configuration 2000000000 2000000100
                                (st_both, w_old)))) ''templates/default.html'' = Some 50"
proof -
  let ?t = "tick demo default_Configuration 2000000000 2000000100 (st_both, w_old)"
  let ?es = "scanned default_Configuration (in_tree st_both) (tmpl_tree st_both)"
  have h1: "rebuild_due 2000000000 (snd (detect default_Configuration (st_both, w_old)))"
    by code_simp
  have h2: "?t \<noteq> None"
    by code_simp
  then have h3: "?t = Some (fst (the ?t), snd (the ?t))" by auto
  have f1: "file_times ?es ''input/gone.md'' = []"
    by code_simp
  have f2: "file_times ?es ''templates/default.html'' = [50]"
    by code_simp
  from rebuild_updates_the_map_and_keeps_stale_entries[OF h3 h1]
  have r: "lastRebuild (snd (the ?t)) = 2000000100"
    and m: "\<And>p. lastModified (snd (the ?t)) p
                  = (if file_times ?es p = [] then lastModified w_old p
                     else Some (last (file_times ?es p)))"
    by auto
  from m[of "''input/gone.md''"] m[of "''templates/default.html''"] h1 h2 r f1 f2
  show ?thesis by simp
qed

section \<open>C10: a change found while a rebuild is not yet due\<close>

text \<open>
  C10. Let a tick come less than one second after the last rebuild, and let one of its
  walks find the file \<open>p\<close>, with modification time \<open>t\<close>, new or newer than
  recorded (found by the input walk, or by the templates walk when the input walk found
  nothing). Then the tick records \<open>t\<close> for \<open>p\<close> and does not rebuild: the output
  tree and \<open>lastRebuild\<close> are as before. After any later run of ticks during which
  \<open>p\<close> keeps the time \<open>t\<close>, the map still holds \<open>t\<close> for \<open>p\<close>, so the
  test for a change is false at \<open>p\<close>; and a tick at which no other file is new or
  newer finds nothing and does not rebuild, however long after the last rebuild it
  comes.
\<close>

theorem suppressed_change_is_recorded_and_never_found_again:
  assumes deb: "now - lastRebuild w < 1000000000"
    and seen: "((p, File d t) \<in> set (walk_entries hidden (InputDir cfg) (in_tree st))
                  \<and> \<not> strings_HasSuffix p ''.tmp'')
                 \<or> ((p, File d t) \<in> set (walk_entries hidden (TemplatesDir cfg) (tmpl_tree st))
                     \<and> \<not> filesChanged (snd (filepath_Walk (InputDir cfg) (in_tree st) input_visit
                            (w\<lparr>filesChanged := False, changedSource := [], changedFile := []\<rparr>))))"
    and nh: "\<not> hidden p"
    and chg: "is_changed w p t"
    and tm: "has_time cfg (in_tree st) (tmpl_tree st) p t"
  shows "\<exists>st' w'.
           tick c cfg now after (st, w) = Some (st', w')
           \<and> filesChanged w' \<and> lastModified w' p = Some t
           \<and> lastRebuild w' = lastRebuild w \<and> out_tree st' = out_tree st
           \<and> (\<forall>envs st2 w2.
                 (\<forall>e \<in> set envs. has_time cfg (env_input e) (env_templates e) p t)
                 \<and> run_ticks c cfg envs (st', w') = Some (st2, w2)
                 \<longrightarrow> lastModified w2 p = Some t
                     \<and> \<not> is_changed w2 p t
                     \<and> (\<forall>e. has_time cfg (env_input e) (env_templates e) p t
                              \<and> others_unchanged cfg (env_input e) (env_templates e) w2 p
                          \<longrightarrow> (\<exists>st3. tick c cfg (env_now e) (env_after e)
                                        (st2\<lparr>in_tree := env_input e, tmpl_tree := env_templates e\<rparr>, w2)
                                  = Some (st3, w2\<lparr>filesChanged := False, changedSource := [],
                                                  changedFile := []\<rparr>)
                                \<and> out_tree st3 = out_tree st2)))"
proof -
  obtain st' w' where d: "detect cfg (st, w) = (st', w')" by force
  from detect_records[OF seen nh chg tm] d
  have r: "lastModified w' p = Some t" "filesChanged w'" "lastRebuild w' = lastRebuild w"
    by simp_all
  from deb r(3) have nd: "\<not> rebuild_due now (snd (detect cfg (st, w)))"
    by (simp add: d rebuild_due_def)
  from tick_no_rebuild[OF nd, of c after] d
  have t1: "tick c cfg now after (st, w) = Some (st', w')" by simp
  from detect_files[of cfg st w] d have o: "out_tree st' = out_tree st" by simp
  have later: "lastModified w2 p = Some t
                     \<and> \<not> is_changed w2 p t
                     \<and> (\<forall>e. has_time cfg (env_input e) (env_templates e) p t
                              \<and> others_unchanged cfg (env_input e) (env_templates e) w2 p
                          \<longrightarrow> (\<exists>st3. tick c cfg (env_now e) (env_after e)
                                        (st2\<lparr>in_tree := env_input e, tmpl_tree := env_templates e\<rparr>, w2)
                                  = Some (st3, w2\<lparr>filesChanged := False, changedSource := [],
                                                  changedFile := []\<rparr>)
                                \<and> out_tree st3 = out_tree st2))"
    if h: "\<forall>e \<in> set envs. has_time cfg (env_input e) (env_templates e) p t"
      and run: "run_ticks c cfg envs (st', w') = Some (st2, w2)"
    for envs st2 w2
  proof -
    from run_ticks_keep[OF h _ run] r(1) have k: "lastModified w2 p = Some t" by simp
    then have nc: "\<not> is_changed w2 p t" by (rule not_changed_recorded)
    have q: "\<exists>st3. tick c cfg (env_now e) (env_after e)
                     (st2\<lparr>in_tree := env_input e, tmpl_tree := env_templates e\<rparr>, w2)
                  = Some (st3, w2\<lparr>filesChanged := False, changedSource := [], changedFile := []\<rparr>)
                \<and> out_tree st3 = out_tree st2"
      if he: "has_time cfg (env_input e) (env_templates e) p t"
        and oe: "others_unchanged cfg (env_input e) (env_templates e) w2 p"
      for e
    proof -
      let ?st = "st2\<lparr>in_tree := env_input e, tmpl_tree := env_templates e\<rparr>"
      let ?w0 = "w2\<lparr>filesChanged := False, changedSource := [], changedFile := []\<rparr>"
      from he have he': "has_time cfg (in_tree ?st) (tmpl_tree ?st) p t" by simp
      from oe have oe': "others_unchanged cfg (in_tree ?st) (tmpl_tree ?st) w2 p" by simp
      from detect_quiet[OF k he' oe'] have dq: "snd (detect cfg (?st, w2)) = ?w0" .
      then have "\<not> rebuild_due (env_now e) (snd (detect cfg (?st, w2)))"
        by (simp add: rebuild_due_def)
      from tick_no_rebuild[OF this, of c "env_after e"]
      have "tick c cfg (env_now e) (env_after e) (?st, w2)
              = Some (fst (detect cfg (?st, w2)), ?w0)"
        using dq by (metis prod.collapse)
      moreover from detect_files[of cfg ?st w2]
      have "out_tree (fst (detect cfg (?st, w2))) = out_tree st2" by simp
      ultimately show ?thesis by blast
    qed
    from k nc q show ?thesis by blast
  qed
  from t1 r o later show ?thesis by blast
qed

theorem suppressed_change_is_recorded_and_never_found_again_witness:
  "(500000000::int) - lastRebuild w_old < 1000000000
   \<and> (''input/a.md'', File ''hello'' 50)
        \<in> set (walk_entries hidden (InputDir default_Configuration) (in_tree st_both))
   \<and> \<not> strings_HasSuffix ''input/a.md'' ''.tmp''
   \<and> \<not> hidden ''input/a.md''
   \<and> is_changed w_old ''input/a.md'' 50
   \<and> has_time default_Configuration (in_tree st_both) (tmpl_tree st_both) ''input/a.md'' 50
   \<and> tick demo default_Configuration 500000000 500000100 (st_both, w_old) \<noteq> None
   \<and> filesChanged (snd (the (tick demo default_Configuration 500000000 500000100
                                (st_both, w_old))))
   \<and> lastModified (snd (the (tick demo default_Configuration 500000000 500000100
                                (st_both, w_old)))) ''input/a.md'' = Some 50
   \<and> lastRebuild (snd (the (tick demo default_Configuration 500000000 500000100
                               (st_both, w_old)))) = 0
   \<and> out_tree (fst (the (tick demo default_Configuration 500000000 500000100
                            (st_both, w_old)))) = None
   \<and> has_time default_Configuration (env_input (env_later 3000000000))
        (env_templates (env_later 3000000000)) ''input/a.md'' 50
   \<and> run_ticks demo default_Configuration [env_later 3000000000]
        (the (tick demo default_Configuration 500000000 500000100 (st_both, w_old))) \<noteq> None
   \<and> lastModified (snd (the (run_ticks demo default_Configuration [env_later 3000000000]
        (the (tick demo default_Configuration 500000000 500000100 (st_both, w_old))))))
        ''input/a.md'' = Some 50
   \<and> lastRebuild (snd (the (run_ticks demo default_Configuration [env_later 3000000000]
        (the (tick demo default_Configuration 500000000 500000100 (st_both, w_old)))))) = 0"
proof -
  let ?T = "tick demo default_Configuration 500000000 500000100 (st_both, w_old)"
  let ?R = "run_ticks demo default_Configuration [env_later 3000000000] (the ?T)"
  let ?p = "''input/a.md''"
  have h1: "(500000000::int) - lastRebuild w_old < 1000000000"
    by code_simp
  have h2: "(?p, File ''hello'' 50)
        \<in> set (walk_entries hidden (InputDir default_Configuration) (in_tree st_both))"
    by code_simp
  have h3: "\<not> strings_HasSuffix ?p ''.tmp''"
    by code_simp
  have h4: "\<not> hidden ?p"
    by code_simp
  have h5: "is_changed w_old ?p 50"
    by code_simp
  have h6: "has_time default_Configuration (in_tree st_both) (tmpl_tree st_both) ?p 50"
    by code_simp
  have e1: "has_time default_Configuration (env_input (env_later 3000000000))
        (env_templates (env_later 3000000000)) ?p 50"
    by code_simp
  have r1: "?R \<noteq> None"
    by code_simp
  have r2: "lastRebuild (snd (the ?R)) = 0"
    by code_simp
  have lr: "lastRebuild w_old = 0" and ot: "out_tree st_both = None"
    by (simp_all add: w_old_def st_both_def)
  from suppressed_change_is_recorded_and_never_found_again[OF h1 disjI1[OF conjI[OF h2 h3]] h4 h5 h6,
      of demo 500000100]
  obtain st' w' where t: "?T = Some (st', w')"
    and a: "filesChanged w'" "lastModified w' ?p = Some 50" "lastRebuild w' = lastRebuild w_old"
      "out_tree st' = out_tree st_both"
    and l: "\<And>envs st2 w2.
              (\<forall>e \<in> set envs. has_time default_Configuration (env_input e) (env_templates e) ?p 50)
              \<and> run_ticks demo default_Configuration envs (st', w') = Some (st2, w2)
              \<Longrightarrow> lastModified w2 ?p = Some 50"
    by blast
  from t have tt: "the ?T = (st', w')" by simp
  from r1 obtain st2 w2 where r: "?R = Some (st2, w2)" by auto
  from l[of "[env_later 3000000000]" st2 w2] e1 r tt
  have k: "lastModified (snd (the ?R)) ?p = Some 50" by simp
  from h1 h2 h3 h4 h5 h6 t a e1 r1 k r2 lr ot show ?thesis by simp
qed

end
